theory Spec2Isabelle
  imports Main
begin

section \<open>Data model of \<^verbatim>\<open>cocotb/handle.py\<close>\<close>

text \<open>
  A GPI handle is a Python int; the simulator answers a failed child lookup with the
  null handle \<open>0\<close> (the source tests it with \<^verbatim>\<open>if not new_handle\<close>).
  A Python object reference is the position of the object in the heap: two references
  are the same object exactly when they are the same number.
\<close>

type_synonym handle = int
type_synonym ref = nat

text \<open>A Python float. It is carried from the simulator to the caller and never computed with.\<close>

datatype pyfloat = PyFloat int int

text \<open>
  \<^verbatim>\<open>cocotb.binary.BinaryValue\<close> is not part of \<^verbatim>\<open>handle.py\<close>. A bit-vector is recorded
  by the arguments that \<^verbatim>\<open>handle.py\<close> builds it from: the value given (an integer, a
  string, a binary string assigned to \<^verbatim>\<open>.binstr\<close>, or the packing of a ctypes structure),
  \<^verbatim>\<open>n_bits\<close> and \<^verbatim>\<open>bigEndian\<close> (True unless given).
\<close>

datatype bvsrc = FromInt int | FromStr string | FromBinstr string | FromPacked string

datatype BinaryValue = BinaryValue (bv_value: bvsrc) (bv_n_bits: nat) (bv_bigEndian: bool)

text \<open>
  Python values that reach the value accessors. \<open>VDict vs b\<close> is the mapping
  \<^verbatim>\<open>{"values": vs, "bits": b}\<close>; \<open>VStruct\<close> is a \<^verbatim>\<open>ctypes.Structure\<close>;
  \<open>Deposit\<close>, \<open>Force\<close>, \<open>Freeze\<close> and \<open>Release\<close> are the instances of the
  \<^verbatim>\<open>_SetAction\<close> classes; \<open>VProxy r\<close> is the handle object at reference \<open>r\<close>;
  \<open>VMember n\<close> is whatever Python's default attribute lookup finds under the name \<open>n\<close>.
\<close>

datatype pyval =
    VInt int
  | VFloat pyfloat
  | VStr string
  | VBin BinaryValue
  | VList "pyval list"
  | VDict "int list" int
  | VStruct string
  | Deposit pyval
  | Force pyval
  | Freeze
  | Release
  | VProxy ref
  | VMember string

text \<open>The classes that the factory \<^verbatim>\<open>SimHandle\<close> instantiates.\<close>

datatype cls =
    HierarchyObject
  | HierarchyArrayObject
  | ConstantObject
  | NonHierarchyIndexableObject
  | ModifiableObject
  | RealObject
  | EnumObject
  | IntegerObject
  | StringObject

text \<open>Keys of the \<^verbatim>\<open>_sub_handles\<close> dictionary: child names and integer indices.\<close>

datatype key = KName string | KIdx int

text \<open>
  The instance attributes of a handle object (\<^verbatim>\<open>SimHandleBase.__init__\<close> and the
  subclasses' constructors), the leading underscore written \<open>p_\<close>. \<open>p_dict_value\<close> is
  an entry \<^verbatim>\<open>value\<close> of the instance's own \<^verbatim>\<open>__dict__\<close>, which only
  \<^verbatim>\<open>object.__setattr__\<close> creates.
\<close>

record proxy =
  p_cls :: cls
  p_handle :: handle
  p_len :: "nat option"
  p_sub_handles :: "key \<Rightarrow> ref option"
  p_invalid_sub_handles :: "string set"
  p_name :: string
  p_type :: string
  p_fullname :: string
  p_path :: string
  p_def_name :: string
  p_def_file :: string
  p_discovered :: bool
  p_value :: "pyval option"
  p_range :: "(int \<times> int) option"
  p_dict_value :: "pyval option"

text \<open>The exceptions raised in \<^verbatim>\<open>handle.py\<close>, each with the data its message is built from.\<close>

datatype type_error =
    NotPermissibleGet
  | NotPermissibleSet
  | NonListValue
  | NotSubscriptable
  | NotCallable
  | ArrayLengthMismatch nat int int nat
  | UnsupportedType
  | NotAComparison

datatype index_error = NotIndexable string int | NoObjectAtIndex string int | ListIndexOutOfRange

datatype attribute_error = ContainsNoObject | AttemptToAccess | NoAttribute

datatype value_error = ListLengthMismatch nat string nat | NegativeShiftCount

datatype error =
    TestError int "string option"
  | AttributeError attribute_error string string
  | IndexError index_error
  | TypeError type_error
  | ValueError value_error
  | RecursionError
  | ReError

text \<open>Records written to the per-object logger.\<close>

datatype level = DEBUG | ERROR | CRITICAL

datatype logmsg =
    Created
  | DiscoveringAllOn string
  | Caught error
  | UnableToTranslate string
  | UnableToMatchIndexPattern string
  | UnableToSetArray nat int int nat
  | UnsupportedTypeFor pyval

text \<open>Child lookups sent to the simulator, and values written to it.\<close>

datatype query = ByName handle string | ByIndex handle int

datatype native_write =
    WriteLong handle int int
  | WriteReal handle int pyfloat
  | WriteStr handle int string
  | WriteBinstr handle int BinaryValue

text \<open>
  The three index patterns of \<^verbatim>\<open>HierarchyArrayObject._sub_handle_key\<close>:
  \<^verbatim>\<open>name__X\<close>, \<^verbatim>\<open>name(X)\<close> and \<^verbatim>\<open>name[X]\<close>.
\<close>

datatype index_pattern = Underscores | Parentheses | Brackets

text \<open>
  The \<^verbatim>\<open>simulator\<close> extension module, as it answers during one call: the queries on
  the elaborated design, the reads of signal values, and the type constants. The last
  four fields are the library functions that \<^verbatim>\<open>handle.py\<close> calls and does not define:
  whether \<^verbatim>\<open>BinaryValue.binstr\<close> accepts a string, \<^verbatim>\<open>re.match\<close> of one of the index
  patterns built from an object's name followed by \<^verbatim>\<open>int\<close> of the matched digits
  (the name goes into the pattern unescaped, so that \<^verbatim>\<open>re.match\<close> raises \<^verbatim>\<open>re.error\<close>
  for a name that is no regular expression),
  \<^verbatim>\<open>float\<close> (with the exception it raises), and \<^verbatim>\<open>int\<close> of a \<^verbatim>\<open>BinaryValue\<close>. \<open>iterate_objects\<close> lists what
  \<^verbatim>\<open>simulator.next\<close> returns for \<^verbatim>\<open>simulator.iterate(handle, simulator.OBJECTS)\<close>.
\<close>

record simulator =
  get_name_string :: "handle \<Rightarrow> string"
  get_type_string :: "handle \<Rightarrow> string"
  get_definition_name :: "handle \<Rightarrow> string"
  get_definition_file :: "handle \<Rightarrow> string"
  get_num_elems :: "handle \<Rightarrow> nat"
  get_type :: "handle \<Rightarrow> int"
  get_const :: "handle \<Rightarrow> bool"
  get_handle_by_name :: "handle \<Rightarrow> string \<Rightarrow> handle"
  get_handle_by_index :: "handle \<Rightarrow> int \<Rightarrow> handle"
  get_range :: "handle \<Rightarrow> (int \<times> int) option"
  iterate_objects :: "handle \<Rightarrow> handle list"
  get_signal_val_long :: "handle \<Rightarrow> int"
  get_signal_val_real :: "handle \<Rightarrow> pyfloat"
  get_signal_val_str :: "handle \<Rightarrow> string"
  get_signal_val_binstr :: "handle \<Rightarrow> string"
  MODULE :: int
  STRUCTURE :: int
  REG :: int
  NET :: int
  NETARRAY :: int
  REAL :: int
  INTEGER :: int
  ENUM :: int
  STRING :: int
  GENARRAY :: int
  binstr_accepts :: "string \<Rightarrow> bool"
  re_match_index :: "index_pattern \<Rightarrow> string \<Rightarrow> string \<Rightarrow> error + int option"
  py_float :: "pyval \<Rightarrow> error + pyfloat"
  binary_int :: "BinaryValue \<Rightarrow> int"

text \<open>
  The state of the Python process: the objects, the module's \<^verbatim>\<open>_handle2obj\<close> and
  \<^verbatim>\<open>_deprecation_warned\<close> dictionaries, the child lookups and the writes sent to the
  simulator so far, the writes handed to \<^verbatim>\<open>cocotb.scheduler.save_write\<close>, and the log.
\<close>

record state =
  heap :: "proxy list"
  handle2obj :: "handle \<Rightarrow> ref option"
  deprecation_warned :: "string set"
  native_queries :: "query list"
  native_writes :: "native_write list"
  pending_writes :: "(ref \<times> pyval) list"
  log :: "(level \<times> logmsg) list"

definition update_obj :: "ref \<Rightarrow> (proxy \<Rightarrow> proxy) \<Rightarrow> state \<Rightarrow> state" where
  "update_obj r f s = s\<lparr>heap := (heap s)[r := f (heap s ! r)]\<rparr>"

definition log_msg :: "level \<Rightarrow> logmsg \<Rightarrow> state \<Rightarrow> state" where
  "log_msg l m s = s\<lparr>log := log s @ [(l, m)]\<rparr>"

section \<open>Strings\<close>

definition digit_char :: "nat \<Rightarrow> char" where
  "digit_char n = char_of (48 + n)"

function str_nat :: "nat \<Rightarrow> string" where
  "str_nat n = (if n < 10 then [digit_char n] else str_nat (n div 10) @ [digit_char (n mod 10)])"
  by pat_completeness auto
termination
  by (relation "measure id") auto

text \<open>\<^verbatim>\<open>str(index)\<close> of an int.\<close>

definition str_int :: "int \<Rightarrow> string" where
  "str_int i = (if i < 0 then CHR ''-'' # str_nat (nat (- i)) else str_nat (nat i))"

text \<open>\<^verbatim>\<open>str(index)\<close> where the index may be \<^verbatim>\<open>None\<close>.\<close>

definition str_index :: "int option \<Rightarrow> string" where
  "str_index k = (case k of None \<Rightarrow> ''None'' | Some i \<Rightarrow> str_int i)"

text \<open>\<^verbatim>\<open>name.startswith("_")\<close>\<close>

definition startswith_underscore :: "string \<Rightarrow> bool" where
  "startswith_underscore name = (case name of [] \<Rightarrow> False | c # _ \<Rightarrow> c = CHR ''_'')"

text \<open>\<^verbatim>\<open>name.split(".")[-1]\<close>\<close>

definition last_segment :: "string \<Rightarrow> string" where
  "last_segment name = rev (takeWhile (\<lambda>c. c \<noteq> CHR ''.'') (rev name))"

section \<open>\<^verbatim>\<open>SimHandleBase\<close>\<close>

definition compat_mapping :: "string \<Rightarrow> string option" where
  "compat_mapping = map_of [(''log'', ''_log''), (''fullname'', ''_fullname''), (''name'', ''_name'')]"

definition SimHandleBase_init :: "simulator \<Rightarrow> cls \<Rightarrow> handle \<Rightarrow> string option \<Rightarrow> proxy" where
  "SimHandleBase_init sim c h path =
     \<lparr>p_cls = c, p_handle = h, p_len = None, p_sub_handles = Map.empty,
      p_invalid_sub_handles = {},
      p_name = get_name_string sim h,
      p_type = get_type_string sim h,
      p_fullname = get_name_string sim h @ ''('' @ get_type_string sim h @ '')'',
      p_path = (case path of None \<Rightarrow> get_name_string sim h | Some p \<Rightarrow> p),
      p_def_name = get_definition_name sim h,
      p_def_file = get_definition_file sim h,
      p_discovered = False, p_value = None, p_range = None, p_dict_value = None\<rparr>"

text \<open>\<^verbatim>\<open>SimHandleBase.__len__\<close>: the element count is asked once and kept in \<^verbatim>\<open>_len\<close>.\<close>

definition SimHandleBase_len :: "simulator \<Rightarrow> ref \<Rightarrow> state \<Rightarrow> nat \<times> state" where
  "SimHandleBase_len sim r s =
     (case p_len (heap s ! r) of
        Some n \<Rightarrow> (n, s)
      | None \<Rightarrow>
          (get_num_elems sim (p_handle (heap s ! r)),
           update_obj r (\<lambda>self. self\<lparr>p_len := Some (get_num_elems sim (p_handle self))\<rparr>) s))"

text \<open>\<^verbatim>\<open>SimHandleBase.__eq__\<close> between two handle objects.\<close>

definition SimHandleBase_eq :: "proxy \<Rightarrow> proxy \<Rightarrow> bool" where
  "SimHandleBase_eq self other = (p_handle self = p_handle other)"

text \<open>
  The result of an attribute lookup: a child handle object, or the name that
  \<^verbatim>\<open>SimHandleBase.__getattr__\<close> passes on to Python's default lookup
  (\<^verbatim>\<open>getattr(self, self._compat_mapping[name])\<close> or \<^verbatim>\<open>object.__getattribute__(self, name)\<close>),
  whose outcome lies outside \<^verbatim>\<open>handle.py\<close>.
\<close>

datatype lookup = Child ref | Default string

definition SimHandleBase_getattr :: "string \<Rightarrow> state \<Rightarrow> (error + lookup) \<times> state" where
  "SimHandleBase_getattr name s =
     (case compat_mapping name of
        Some new \<Rightarrow> (Inr (Default new), s\<lparr>deprecation_warned := insert name (deprecation_warned s)\<rparr>)
      | None \<Rightarrow> (Inr (Default name), s))"

section \<open>The factory \<^verbatim>\<open>SimHandle\<close>\<close>

definition RegionObject_init :: "simulator \<Rightarrow> cls \<Rightarrow> handle \<Rightarrow> string option \<Rightarrow> proxy" where
  "RegionObject_init sim c h path = (SimHandleBase_init sim c h path)\<lparr>p_discovered := False\<rparr>"

definition NonHierarchyIndexableObject_init :: "simulator \<Rightarrow> cls \<Rightarrow> handle \<Rightarrow> string option \<Rightarrow> proxy" where
  "NonHierarchyIndexableObject_init sim c h path =
     (SimHandleBase_init sim c h path)\<lparr>p_range := get_range sim h\<rparr>"

text \<open>The value that \<^verbatim>\<open>ConstantObject.__init__\<close> reads for a handle of type \<open>t\<close>.\<close>

definition ConstantObject_read :: "simulator \<Rightarrow> handle \<Rightarrow> int \<Rightarrow> pyval" where
  "ConstantObject_read sim h handle_type =
     (if handle_type \<in> set [INTEGER sim, ENUM sim] then VInt (get_signal_val_long sim h)
      else if handle_type = REAL sim then VFloat (get_signal_val_real sim h)
      else if handle_type = STRING sim then VStr (get_signal_val_str sim h)
      else (let val = get_signal_val_binstr sim h in
            if binstr_accepts sim val then VBin (BinaryValue (FromBinstr val) (length val) True)
            else VStr val))"

definition ConstantObject_init :: "simulator \<Rightarrow> handle \<Rightarrow> string option \<Rightarrow> int \<Rightarrow> proxy" where
  "ConstantObject_init sim h path handle_type =
     (SimHandleBase_init sim ConstantObject h path)\<lparr>p_value := Some (ConstantObject_read sim h handle_type)\<rparr>"

text \<open>The dictionary \<^verbatim>\<open>_type2cls\<close>; in a dictionary display a later entry replaces an earlier one with the same key.\<close>

definition type2cls :: "simulator \<Rightarrow> int \<Rightarrow> cls option" where
  "type2cls sim = map_of (rev
     [(MODULE sim, HierarchyObject),
      (STRUCTURE sim, HierarchyObject),
      (REG sim, ModifiableObject),
      (NET sim, ModifiableObject),
      (NETARRAY sim, NonHierarchyIndexableObject),
      (REAL sim, RealObject),
      (INTEGER sim, IntegerObject),
      (ENUM sim, EnumObject),
      (STRING sim, StringObject),
      (GENARRAY sim, HierarchyArrayObject)])"

text \<open>Calling the class \<open>c\<close> found in \<^verbatim>\<open>_type2cls\<close> on \<^verbatim>\<open>(handle, path)\<close>.\<close>

definition construct :: "simulator \<Rightarrow> cls \<Rightarrow> handle \<Rightarrow> string option \<Rightarrow> proxy" where
  "construct sim c h path =
     (case c of
        HierarchyObject \<Rightarrow> RegionObject_init sim c h path
      | HierarchyArrayObject \<Rightarrow> RegionObject_init sim c h path
      | _ \<Rightarrow> NonHierarchyIndexableObject_init sim c h path)"

text \<open>A new object is put on the heap (its constructor logs \<^verbatim>\<open>Created\<close>) and entered in \<^verbatim>\<open>_handle2obj\<close>.\<close>

definition register :: "handle \<Rightarrow> proxy \<Rightarrow> state \<Rightarrow> ref \<times> state" where
  "register h obj s =
     (length (heap s),
      (log_msg DEBUG Created s)\<lparr>heap := heap s @ [obj], handle2obj := (handle2obj s)(h \<mapsto> length (heap s))\<rparr>)"

definition SimHandle :: "simulator \<Rightarrow> handle \<Rightarrow> string option \<Rightarrow> state \<Rightarrow> (error + ref) \<times> state" where
  "SimHandle sim h path s =
     (case handle2obj s h of
        Some obj \<Rightarrow> (Inr obj, s)
      | None \<Rightarrow>
          (let t = get_type sim h in
           if get_const sim h \<and> t \<notin> set [MODULE sim, STRUCTURE sim, NETARRAY sim, GENARRAY sim]
           then (let (obj, s') = register h (ConstantObject_init sim h path t) s in (Inr obj, s'))
           else (case type2cls sim t of
                   None \<Rightarrow> (Inl (TestError t path), s)
                 | Some c \<Rightarrow> (let (obj, s') = register h (construct sim c h path) s in (Inr obj, s')))))"

section \<open>\<^verbatim>\<open>RegionObject\<close>, \<^verbatim>\<open>HierarchyObject\<close> and \<^verbatim>\<open>HierarchyArrayObject\<close>\<close>

definition native_query :: "query \<Rightarrow> state \<Rightarrow> state" where
  "native_query q s = s\<lparr>native_queries := native_queries s @ [q]\<rparr>"

definition set_sub_handle :: "ref \<Rightarrow> key \<Rightarrow> ref \<Rightarrow> state \<Rightarrow> state" where
  "set_sub_handle r k c s = update_obj r (\<lambda>self. self\<lparr>p_sub_handles := (p_sub_handles self)(k \<mapsto> c)\<rparr>) s"

definition set_invalid_sub_handle :: "ref \<Rightarrow> string \<Rightarrow> state \<Rightarrow> state" where
  "set_invalid_sub_handle r name s =
     update_obj r (\<lambda>self. self\<lparr>p_invalid_sub_handles := insert name (p_invalid_sub_handles self)\<rparr>) s"

text \<open>
  \<^verbatim>\<open>HierarchyArrayObject._sub_handle_key\<close>: the three patterns are tried in order; when
  none matches an error is logged and the key is \<^verbatim>\<open>None\<close>. An exception of
  \<^verbatim>\<open>re.match\<close> is not caught.
\<close>

definition HierarchyArrayObject_sub_handle_key :: "simulator \<Rightarrow> ref \<Rightarrow> string \<Rightarrow> state \<Rightarrow> (error + int option) \<times> state" where
  "HierarchyArrayObject_sub_handle_key sim r name s =
     (case re_match_index sim Underscores (p_name (heap s ! r)) name of
        Inl e \<Rightarrow> (Inl e, s)
      | Inr (Some i) \<Rightarrow> (Inr (Some i), s)
      | Inr None \<Rightarrow>
          (case re_match_index sim Parentheses (p_name (heap s ! r)) name of
             Inl e \<Rightarrow> (Inl e, s)
           | Inr (Some i) \<Rightarrow> (Inr (Some i), s)
           | Inr None \<Rightarrow>
               (case re_match_index sim Brackets (p_name (heap s ! r)) name of
                  Inl e \<Rightarrow> (Inl e, s)
                | Inr (Some i) \<Rightarrow> (Inr (Some i), s)
                | Inr None \<Rightarrow> (Inr None, log_msg ERROR (UnableToMatchIndexPattern name) s))))"

text \<open>\<^verbatim>\<open>_sub_handle_key\<close> as the object's class defines it.\<close>

definition sub_handle_key :: "simulator \<Rightarrow> ref \<Rightarrow> string \<Rightarrow> state \<Rightarrow> (error + key option) \<times> state" where
  "sub_handle_key sim r name s =
     (if p_cls (heap s ! r) = HierarchyArrayObject
      then (case HierarchyArrayObject_sub_handle_key sim r name s of
              (Inl e, s') \<Rightarrow> (Inl e, s')
            | (Inr index, s') \<Rightarrow> (Inr (map_option KIdx index), s'))
      else (Inr (Some (KName (last_segment name))), s))"

text \<open>\<^verbatim>\<open>_child_path\<close> as the object's class defines it.\<close>

definition child_path :: "simulator \<Rightarrow> ref \<Rightarrow> string \<Rightarrow> state \<Rightarrow> (error + string) \<times> state" where
  "child_path sim r name s =
     (if p_cls (heap s ! r) = HierarchyArrayObject
      then (case HierarchyArrayObject_sub_handle_key sim r name s of
              (Inl e, s') \<Rightarrow> (Inl e, s')
            | (Inr index, s') \<Rightarrow> (Inr (p_path (heap s ! r) @ ''['' @ str_index index @ '']''), s'))
      else (Inr (p_path (heap s ! r) @ ''.'' @ name), s))"

text \<open>\<^verbatim>\<open>isinstance(e, TestError)\<close>, the test of the handler \<^verbatim>\<open>except TestError\<close>.\<close>

definition is_TestError :: "error \<Rightarrow> bool" where
  "is_TestError e = (case e of TestError t p \<Rightarrow> True | _ \<Rightarrow> False)"

text \<open>
  The body of the \<^verbatim>\<open>try\<close> block in \<^verbatim>\<open>RegionObject._discover_all\<close>:
  \<^verbatim>\<open>SimHandle(thing, self._child_path(name))\<close>, the argument being evaluated first.
\<close>

definition try_SimHandle :: "simulator \<Rightarrow> ref \<Rightarrow> handle \<Rightarrow> string \<Rightarrow> state \<Rightarrow> (error + ref) \<times> state" where
  "try_SimHandle sim r thing name s =
     (case child_path sim r name s of
        (Inl e, s0) \<Rightarrow> (Inl e, s0)
      | (Inr path, s0) \<Rightarrow> SimHandle sim thing (Some path) s0)"

text \<open>
  The loop of \<^verbatim>\<open>RegionObject._discover_all\<close> over the children that the simulator lists.
  A \<^verbatim>\<open>TestError\<close> of the \<^verbatim>\<open>try\<close> block is logged and the loop goes on with the next
  child. Every other exception of the block, and every exception of \<^verbatim>\<open>_sub_handle_key\<close>,
  which is called outside of it, ends the loop and leaves \<^verbatim>\<open>_discover_all\<close>.
\<close>

fun discover_loop :: "simulator \<Rightarrow> ref \<Rightarrow> handle list \<Rightarrow> state \<Rightarrow> (error + unit) \<times> state" where
  "discover_loop sim r [] s = (Inr (), s)"
| "discover_loop sim r (thing # things) s =
     (let name = get_name_string sim thing
      in case try_SimHandle sim r thing name s of
           (Inl e, s1) \<Rightarrow>
             (if is_TestError e then discover_loop sim r things (log_msg DEBUG (Caught e) s1)
              else (Inl e, s1))
         | (Inr hdl, s1) \<Rightarrow>
             (case sub_handle_key sim r name s1 of
                (Inl e, s2) \<Rightarrow> (Inl e, s2)
              | (Inr (Some k), s2) \<Rightarrow> discover_loop sim r things (set_sub_handle r k hdl s2)
              | (Inr None, s2) \<Rightarrow>
                  discover_loop sim r things
                    (log_msg DEBUG (UnableToTranslate (p_name (heap s2 ! hdl))) s2)))"

text \<open>\<^verbatim>\<open>RegionObject._discover_all\<close>; \<^verbatim>\<open>_discovered\<close> is set when the loop has come to its end.\<close>

definition RegionObject_discover_all :: "simulator \<Rightarrow> ref \<Rightarrow> state \<Rightarrow> (error + unit) \<times> state" where
  "RegionObject_discover_all sim r s =
     (if p_discovered (heap s ! r) then (Inr (), s)
      else (let s1 = log_msg DEBUG (DiscoveringAllOn (p_name (heap s ! r))) s
            in case discover_loop sim r (iterate_objects sim (p_handle (heap s ! r))) s1 of
                 (Inl e, s2) \<Rightarrow> (Inl e, s2)
               | (Inr _, s2) \<Rightarrow> (Inr (), update_obj r (\<lambda>self. self\<lparr>p_discovered := True\<rparr>) s2)))"

text \<open>\<^verbatim>\<open>HierarchyObject.__getattr__\<close>\<close>

definition HierarchyObject_getattr :: "simulator \<Rightarrow> ref \<Rightarrow> string \<Rightarrow> state \<Rightarrow> (error + lookup) \<times> state" where
  "HierarchyObject_getattr sim r name s =
     (case p_sub_handles (heap s ! r) (KName name) of
        Some c \<Rightarrow> (Inr (Child c), s)
      | None \<Rightarrow>
          if startswith_underscore name then SimHandleBase_getattr name s
          else (let new_handle = get_handle_by_name sim (p_handle (heap s ! r)) name;
                    s1 = native_query (ByName (p_handle (heap s ! r)) name) s
                in if new_handle = 0
                   then (if compat_mapping name \<noteq> None then SimHandleBase_getattr name s1
                         else (Inl (AttributeError ContainsNoObject (p_name (heap s ! r)) name), s1))
                   else (case SimHandle sim new_handle (Some (p_path (heap s ! r) @ ''.'' @ name)) s1 of
                           (Inl e, s2) \<Rightarrow> (Inl e, s2)
                         | (Inr sub_handle, s2) \<Rightarrow>
                             (Inr (Child sub_handle), set_sub_handle r (KName name) sub_handle s2))))"

text \<open>
  \<^verbatim>\<open>HierarchyObject.__hasattr__\<close> returns a cached child object, \<^verbatim>\<open>None\<close> for a name in
  \<^verbatim>\<open>_invalid_sub_handles\<close>, and otherwise the handle that the simulator answered
  (the null handle when there is no such child).
\<close>

datatype peek = PeekObject ref | PeekNone | PeekHandle handle

definition HierarchyObject_hasattr :: "simulator \<Rightarrow> ref \<Rightarrow> string \<Rightarrow> state \<Rightarrow> (error + peek) \<times> state" where
  "HierarchyObject_hasattr sim r name s =
     (case p_sub_handles (heap s ! r) (KName name) of
        Some c \<Rightarrow> (Inr (PeekObject c), s)
      | None \<Rightarrow>
          if name \<in> p_invalid_sub_handles (heap s ! r) then (Inr PeekNone, s)
          else (let new_handle = get_handle_by_name sim (p_handle (heap s ! r)) name;
                    s1 = native_query (ByName (p_handle (heap s ! r)) name) s
                in if new_handle \<noteq> 0
                   then (case SimHandle sim new_handle (Some (p_path (heap s ! r) @ ''.'' @ name)) s1 of
                           (Inl e, s2) \<Rightarrow> (Inl e, s2)
                         | (Inr c, s2) \<Rightarrow> (Inr (PeekHandle new_handle), set_sub_handle r (KName name) c s2))
                   else (Inr (PeekHandle new_handle), set_invalid_sub_handle r name s1)))"

text \<open>
  \<^verbatim>\<open>HierarchyObject._id(name)\<close> with \<^verbatim>\<open>extended\<close> left at its default True: the
  extended identifier is the name between two backslashes, which is no Python attribute,
  so that \<^verbatim>\<open>getattr(self, name)\<close> is \<^verbatim>\<open>__getattr__\<close>.
\<close>

definition HierarchyObject_id :: "simulator \<Rightarrow> ref \<Rightarrow> string \<Rightarrow> state \<Rightarrow> (error + lookup) \<times> state" where
  "HierarchyObject_id sim r name0 s =
     (let name = char_of (92::nat) # name0 @ [char_of (92::nat)]
      in case HierarchyObject_hasattr sim r name s of
           (Inl e, s1) \<Rightarrow> (Inl e, s1)
         | (Inr PeekNone, s1) \<Rightarrow> (Inl (AttributeError ContainsNoObject (p_name (heap s1 ! r)) name), s1)
         | (Inr _, s1) \<Rightarrow> HierarchyObject_getattr sim r name s1)"

text \<open>\<^verbatim>\<open>HierarchyArrayObject.__getitem__\<close> at an integer index.\<close>

definition HierarchyArrayObject_getitem :: "simulator \<Rightarrow> ref \<Rightarrow> int \<Rightarrow> state \<Rightarrow> (error + ref) \<times> state" where
  "HierarchyArrayObject_getitem sim r index s =
     (case p_sub_handles (heap s ! r) (KIdx index) of
        Some c \<Rightarrow> (Inr c, s)
      | None \<Rightarrow>
          (let new_handle = get_handle_by_index sim (p_handle (heap s ! r)) index;
               s1 = native_query (ByIndex (p_handle (heap s ! r)) index) s
           in if new_handle = 0
              then (Inl (IndexError (NoObjectAtIndex (p_name (heap s ! r)) index)), s1)
              else (case SimHandle sim new_handle (Some (p_path (heap s ! r) @ ''['' @ str_int index @ '']'')) s1 of
                      (Inl e, s2) \<Rightarrow> (Inl e, s2)
                    | (Inr c, s2) \<Rightarrow> (Inr c, set_sub_handle r (KIdx index) c s2))))"

section \<open>\<^verbatim>\<open>NonHierarchyIndexableObject\<close>\<close>

text \<open>\<^verbatim>\<open>NonHierarchyIndexableObject.__getitem__\<close> at an integer index.\<close>

definition NonHierarchyIndexableObject_getitem :: "simulator \<Rightarrow> ref \<Rightarrow> int \<Rightarrow> state \<Rightarrow> (error + ref) \<times> state" where
  "NonHierarchyIndexableObject_getitem sim r index s =
     (case p_range (heap s ! r) of
        None \<Rightarrow> (Inl (IndexError (NotIndexable (p_fullname (heap s ! r)) index)), s)
      | Some _ \<Rightarrow>
          (case p_sub_handles (heap s ! r) (KIdx index) of
             Some c \<Rightarrow> (Inr c, s)
           | None \<Rightarrow>
               (let new_handle = get_handle_by_index sim (p_handle (heap s ! r)) index;
                    s1 = native_query (ByIndex (p_handle (heap s ! r)) index) s
                in if new_handle = 0
                   then (Inl (IndexError (NoObjectAtIndex (p_fullname (heap s ! r)) index)), s1)
                   else (case SimHandle sim new_handle (Some (p_path (heap s ! r) @ ''['' @ str_int index @ '']'')) s1 of
                           (Inl e, s2) \<Rightarrow> (Inl e, s2)
                         | (Inr c, s2) \<Rightarrow> (Inr c, set_sub_handle r (KIdx index) c s2)))))"

text \<open>The two loops of \<^verbatim>\<open>_range_iter\<close>, and the indices the generator yields.\<close>

function range_down :: "int \<Rightarrow> int \<Rightarrow> int list" where
  "range_down left right = (if left \<ge> right then left # range_down (left - 1) right else [])"
  by pat_completeness auto
termination
  by (relation "measure (\<lambda>(left, right). nat (left - right + 1))") auto

function range_up :: "int \<Rightarrow> int \<Rightarrow> int list" where
  "range_up left right = (if left \<le> right then left # range_up (left + 1) right else [])"
  by pat_completeness auto
termination
  by (relation "measure (\<lambda>(left, right). nat (right - left + 1))") auto

definition range_iter :: "int \<Rightarrow> int \<Rightarrow> int list" where
  "range_iter left right = (if left > right then range_down left right else range_up left right)"

section \<open>Reading and assigning \<^verbatim>\<open>value\<close>\<close>

text \<open>
  The \<^verbatim>\<open>value\<close> getter as the class of the object defines it. The list comprehension of
  \<^verbatim>\<open>NonHierarchyIndexableObject.value\<close> reads each element's \<^verbatim>\<open>value\<close> in turn, so the
  getter calls itself on the elements; the first argument bounds the depth of these
  calls, and Python raises \<^verbatim>\<open>RecursionError\<close> where the bound is reached.
  A \<^verbatim>\<open>HierarchyObject\<close> has no \<^verbatim>\<open>value\<close> of its own: the name goes to \<^verbatim>\<open>__getattr__\<close>.
\<close>

fun get_value :: "simulator \<Rightarrow> nat \<Rightarrow> ref \<Rightarrow> state \<Rightarrow> (error + pyval) \<times> state"
  and get_values :: "simulator \<Rightarrow> nat \<Rightarrow> ref \<Rightarrow> int list \<Rightarrow> state \<Rightarrow> (error + pyval list) \<times> state" where
  "get_value sim 0 r s = (Inl RecursionError, s)"
| "get_value sim (Suc d) r s =
     (case p_cls (heap s ! r) of
        HierarchyObject \<Rightarrow>
          (case HierarchyObject_getattr sim r ''value'' s of
             (Inl e, s1) \<Rightarrow> (Inl e, s1)
           | (Inr (Child c), s1) \<Rightarrow> (Inr (VProxy c), s1)
           | (Inr (Default n), s1) \<Rightarrow> (Inr (VMember n), s1))
      | HierarchyArrayObject \<Rightarrow>
          (case p_dict_value (heap s ! r) of
             Some v \<Rightarrow> (Inr v, s)
           | None \<Rightarrow> (Inl (AttributeError NoAttribute (p_name (heap s ! r)) ''value''), s))
      | ConstantObject \<Rightarrow>
          (case p_value (heap s ! r) of
             Some v \<Rightarrow> (Inr v, s)
           | None \<Rightarrow> (Inl (AttributeError NoAttribute (p_name (heap s ! r)) ''_value''), s))
      | NonHierarchyIndexableObject \<Rightarrow>
          (case p_range (heap s ! r) of
             None \<Rightarrow> (Inl (TypeError NotSubscriptable), s)
           | Some (left, right) \<Rightarrow>
               (case get_values sim d r (range_iter left right) s of
                  (Inl e, s1) \<Rightarrow> (Inl e, s1)
                | (Inr vs, s1) \<Rightarrow> (Inr (VList vs), s1)))
      | ModifiableObject \<Rightarrow>
          (let binstr = get_signal_val_binstr sim (p_handle (heap s ! r))
           in (Inr (VBin (BinaryValue (FromStr binstr) (length binstr) True)), s))
      | RealObject \<Rightarrow> (Inr (VFloat (get_signal_val_real sim (p_handle (heap s ! r)))), s)
      | EnumObject \<Rightarrow> (Inr (VInt (get_signal_val_long sim (p_handle (heap s ! r)))), s)
      | IntegerObject \<Rightarrow> (Inr (VInt (get_signal_val_long sim (p_handle (heap s ! r)))), s)
      | StringObject \<Rightarrow> (Inr (VStr (get_signal_val_str sim (p_handle (heap s ! r)))), s))"
| "get_values sim d r [] s = (Inr [], s)"
| "get_values sim d r (i # is) s =
     (case NonHierarchyIndexableObject_getitem sim r i s of
        (Inl e, s1) \<Rightarrow> (Inl e, s1)
      | (Inr c, s1) \<Rightarrow>
          (case get_value sim d c s1 of
             (Inl e, s2) \<Rightarrow> (Inl e, s2)
           | (Inr v, s2) \<Rightarrow>
               (case get_values sim d r is s2 of
                  (Inl e, s3) \<Rightarrow> (Inl e, s3)
                | (Inr vs, s3) \<Rightarrow> (Inr (v # vs), s3))))"

text \<open>\<^verbatim>\<open>cocotb.scheduler.save_write(self, value)\<close>: the scheduler keeps the write for later.\<close>

definition save_write :: "ref \<Rightarrow> pyval \<Rightarrow> state \<Rightarrow> state" where
  "save_write r v s = s\<lparr>pending_writes := pending_writes s @ [(r, v)]\<rparr>"

text \<open>
  The assignment \<^verbatim>\<open>obj.value = v\<close> as the class of the object defines it: the \<^verbatim>\<open>value\<close>
  setters, \<^verbatim>\<open>HierarchyObject.__setattr__\<close> for the name \<^verbatim>\<open>value\<close> (which neither starts
  with an underscore nor is a deprecated name), and \<^verbatim>\<open>object.__setattr__\<close> for a
  \<^verbatim>\<open>HierarchyArrayObject\<close>. The loop of the list setter evaluates \<^verbatim>\<open>value[val_idx]\<close>
  before \<^verbatim>\<open>self[self_idx]\<close>.
\<close>

fun set_value :: "simulator \<Rightarrow> nat \<Rightarrow> ref \<Rightarrow> pyval \<Rightarrow> state \<Rightarrow> (error + unit) \<times> state"
  and set_values :: "simulator \<Rightarrow> nat \<Rightarrow> ref \<Rightarrow> int list \<Rightarrow> pyval list \<Rightarrow> state \<Rightarrow> (error + unit) \<times> state" where
  "set_value sim 0 r v s = (Inl RecursionError, s)"
| "set_value sim (Suc d) r v s =
     (case p_cls (heap s ! r) of
        HierarchyObject \<Rightarrow>
          (case HierarchyObject_hasattr sim r ''value'' s of
             (Inl e, s1) \<Rightarrow> (Inl e, s1)
           | (Inr PeekNone, s1) \<Rightarrow> (Inl (AttributeError AttemptToAccess (p_name (heap s1 ! r)) ''value''), s1)
           | (Inr _, s1) \<Rightarrow>
               (case HierarchyObject_getattr sim r ''value'' s1 of
                  (Inl e, s2) \<Rightarrow> (Inl e, s2)
                | (Inr (Child sub), s2) \<Rightarrow> set_value sim d sub v s2
                | (Inr (Default n), s2) \<Rightarrow> (Inl (AttributeError NoAttribute n ''value''), s2)))
      | HierarchyArrayObject \<Rightarrow>
          (Inr (), update_obj r (\<lambda>self. self\<lparr>p_dict_value := Some v\<rparr>) s)
      | ConstantObject \<Rightarrow> (Inl (TypeError NotPermissibleSet), s)
      | NonHierarchyIndexableObject \<Rightarrow>
          (case v of
             VList vs \<Rightarrow>
               (let (n, s1) = SimHandleBase_len sim r s
                in if length vs \<noteq> n
                   then (Inl (ValueError (ListLengthMismatch (length vs) (p_name (heap s1 ! r)) n)), s1)
                   else (case p_range (heap s1 ! r) of
                           None \<Rightarrow> (Inl (TypeError NotSubscriptable), s1)
                         | Some (left, right) \<Rightarrow> set_values sim d r (range_iter left right) vs s1))
           | _ \<Rightarrow> (Inl (TypeError NonListValue), s))
      | _ \<Rightarrow> (Inr (), save_write r v s))"
| "set_values sim d r [] vs s = (Inr (), s)"
| "set_values sim d r (i # is) [] s = (Inl (IndexError ListIndexOutOfRange), s)"
| "set_values sim d r (i # is) (v # vs) s =
     (case NonHierarchyIndexableObject_getitem sim r i s of
        (Inl e, s1) \<Rightarrow> (Inl e, s1)
      | (Inr c, s1) \<Rightarrow>
          (case set_value sim d c v s1 of
             (Inl e, s2) \<Rightarrow> (Inl e, s2)
           | (Inr _, s2) \<Rightarrow> set_values sim d r is vs s2))"

text \<open>
  \<^verbatim>\<open>NonHierarchyObject.__le__\<close> and the \<^verbatim>\<open>_AssignmentResult\<close> it returns, whose
  \<^verbatim>\<open>__bool__\<close> raises.
\<close>

datatype AssignmentResult = AssignmentResult (ar_signal: ref) (ar_value: pyval)

definition NonHierarchyObject_le :: "simulator \<Rightarrow> nat \<Rightarrow> ref \<Rightarrow> pyval \<Rightarrow> state \<Rightarrow> (error + AssignmentResult) \<times> state" where
  "NonHierarchyObject_le sim d r v s =
     (case set_value sim d r v s of
        (Inl e, s1) \<Rightarrow> (Inl e, s1)
      | (Inr _, s1) \<Rightarrow> (Inr (AssignmentResult r v), s1))"

definition AssignmentResult_bool :: "AssignmentResult \<Rightarrow> error + bool" where
  "AssignmentResult_bool res = Inl (TypeError NotAComparison)"

section \<open>Write actions and \<^verbatim>\<open>setimmediatevalue\<close>\<close>

text \<open>\<^verbatim>\<open>isinstance(value, _SetAction)\<close>\<close>

definition is_SetAction :: "pyval \<Rightarrow> bool" where
  "is_SetAction v = (case v of Deposit _ \<Rightarrow> True | Force _ \<Rightarrow> True | Freeze \<Rightarrow> True | Release \<Rightarrow> True | _ \<Rightarrow> False)"

text \<open>
  \<^verbatim>\<open>_as_gpi_args_for(hdl)\<close> of the four action classes; \<^verbatim>\<open>Freeze\<close> reads \<^verbatim>\<open>hdl.value\<close>.
  A value that is no action never reaches this method.
\<close>

definition as_gpi_args_for :: "simulator \<Rightarrow> nat \<Rightarrow> pyval \<Rightarrow> ref \<Rightarrow> state \<Rightarrow> (error + pyval \<times> int) \<times> state" where
  "as_gpi_args_for sim d action hdl s =
     (case action of
        Deposit x \<Rightarrow> (Inr (x, 0), s)
      | Force x \<Rightarrow> (Inr (x, 1), s)
      | Freeze \<Rightarrow>
          (case get_value sim d hdl s of
             (Inl e, s1) \<Rightarrow> (Inl e, s1)
           | (Inr v, s1) \<Rightarrow> (Inr (v, 1), s1))
      | Release \<Rightarrow> (Inr (VInt 0, 2), s)
      | _ \<Rightarrow> (Inl (AttributeError NoAttribute [] ''_as_gpi_args_for''), s))"

text \<open>\<^verbatim>\<open>ModifiableObject._check_for_set_action\<close>\<close>

definition check_for_set_action :: "simulator \<Rightarrow> nat \<Rightarrow> ref \<Rightarrow> pyval \<Rightarrow> state \<Rightarrow> (error + pyval \<times> int) \<times> state" where
  "check_for_set_action sim d r v s =
     (if \<not> is_SetAction v then (Inr (v, 0), s)
      else as_gpi_args_for sim d v r s)"

definition send_write :: "native_write \<Rightarrow> state \<Rightarrow> state" where
  "send_write w s = s\<lparr>native_writes := native_writes s @ [w]\<rparr>"

text \<open>
  The loop \<^verbatim>\<open>for val in vallist: num = (num << value["bits"]) + val\<close>; Python raises
  \<^verbatim>\<open>ValueError\<close> for a negative shift count.
\<close>

fun pack_loop :: "int \<Rightarrow> int list \<Rightarrow> int \<Rightarrow> error + int" where
  "pack_loop num [] bits = Inr num"
| "pack_loop num (val # vallist) bits =
     (if bits < 0 then Inl (ValueError NegativeShiftCount)
      else pack_loop (num * 2 ^ nat bits + val) vallist bits)"

text \<open>\<^verbatim>\<open>ModifiableObject.setimmediatevalue\<close>\<close>

definition ModifiableObject_setimmediatevalue :: "simulator \<Rightarrow> nat \<Rightarrow> ref \<Rightarrow> pyval \<Rightarrow> state \<Rightarrow> (error + unit) \<times> state" where
  "ModifiableObject_setimmediatevalue sim d r v0 s0 =
     (case check_for_set_action sim d r v0 s0 of
        (Inl e, s) \<Rightarrow> (Inl e, s)
      | (Inr (v, set_action), s) \<Rightarrow>
          (let h = p_handle (heap s ! r) in
           case v of
             VInt i \<Rightarrow>
               (if i < 0x7fffffff \<and> fst (SimHandleBase_len sim r s) \<le> 32
                then (Inr (), send_write (WriteLong h set_action i) (snd (SimHandleBase_len sim r s)))
                else (let (n, s1) = SimHandleBase_len sim r s
                      in (Inr (), send_write (WriteBinstr h set_action (BinaryValue (FromInt i) n False)) s1)))
           | VStruct packed \<Rightarrow>
               (let (n, s1) = SimHandleBase_len sim r s
                in (Inr (), send_write (WriteBinstr h set_action (BinaryValue (FromPacked packed) n True)) s1))
           | VDict vals bits \<Rightarrow>
               (let vallist = rev vals;
                    (n, s1) = SimHandleBase_len sim r s
                in if int (length vallist) * bits \<noteq> int n
                   then (Inl (TypeError (ArrayLengthMismatch (length vals) bits (int (length vals) * bits) n)),
                         log_msg CRITICAL (UnableToSetArray (length vals) bits (int (length vals) * bits) n) s1)
                   else (case pack_loop 0 vallist bits of
                           Inl e \<Rightarrow> (Inl e, s1)
                         | Inr num \<Rightarrow>
                             (Inr (), send_write (WriteBinstr h set_action (BinaryValue (FromInt num) n False)) s1)))
           | VBin b \<Rightarrow> (Inr (), send_write (WriteBinstr h set_action b) s)
           | _ \<Rightarrow> (Inl (TypeError UnsupportedType), log_msg CRITICAL (UnsupportedTypeFor v) s)))"

text \<open>\<^verbatim>\<open>RealObject.setimmediatevalue\<close>: only a \<^verbatim>\<open>ValueError\<close> of \<^verbatim>\<open>float\<close> is caught.\<close>

definition RealObject_setimmediatevalue :: "simulator \<Rightarrow> nat \<Rightarrow> ref \<Rightarrow> pyval \<Rightarrow> state \<Rightarrow> (error + unit) \<times> state" where
  "RealObject_setimmediatevalue sim d r v0 s0 =
     (case check_for_set_action sim d r v0 s0 of
        (Inl e, s) \<Rightarrow> (Inl e, s)
      | (Inr (v, set_action), s) \<Rightarrow>
          (case py_float sim v of
             Inl (ValueError _) \<Rightarrow> (Inl (TypeError UnsupportedType), log_msg CRITICAL (UnsupportedTypeFor v) s)
           | Inl e \<Rightarrow> (Inl e, s)
           | Inr x \<Rightarrow> (Inr (), send_write (WriteReal (p_handle (heap s ! r)) set_action x) s)))"

text \<open>\<^verbatim>\<open>EnumObject.setimmediatevalue\<close> and \<^verbatim>\<open>IntegerObject.setimmediatevalue\<close> have the same body.\<close>

definition IntegerObject_setimmediatevalue :: "simulator \<Rightarrow> nat \<Rightarrow> ref \<Rightarrow> pyval \<Rightarrow> state \<Rightarrow> (error + unit) \<times> state" where
  "IntegerObject_setimmediatevalue sim d r v0 s0 =
     (case check_for_set_action sim d r v0 s0 of
        (Inl e, s) \<Rightarrow> (Inl e, s)
      | (Inr (v, set_action), s) \<Rightarrow>
          (case v of
             VBin b \<Rightarrow> (Inr (), send_write (WriteLong (p_handle (heap s ! r)) set_action (binary_int sim b)) s)
           | VInt i \<Rightarrow> (Inr (), send_write (WriteLong (p_handle (heap s ! r)) set_action i) s)
           | _ \<Rightarrow> (Inl (TypeError UnsupportedType), log_msg CRITICAL (UnsupportedTypeFor v) s)))"

text \<open>\<^verbatim>\<open>StringObject.setimmediatevalue\<close>\<close>

definition StringObject_setimmediatevalue :: "simulator \<Rightarrow> nat \<Rightarrow> ref \<Rightarrow> pyval \<Rightarrow> state \<Rightarrow> (error + unit) \<times> state" where
  "StringObject_setimmediatevalue sim d r v0 s0 =
     (case check_for_set_action sim d r v0 s0 of
        (Inl e, s) \<Rightarrow> (Inl e, s)
      | (Inr (v, set_action), s) \<Rightarrow>
          (case v of
             VStr x \<Rightarrow> (Inr (), send_write (WriteStr (p_handle (heap s ! r)) set_action x) s)
           | _ \<Rightarrow> (Inl (TypeError UnsupportedType), log_msg CRITICAL (UnsupportedTypeFor v) s)))"

text \<open>
  The call \<^verbatim>\<open>obj.setimmediatevalue(v)\<close> as the class of the object defines it. The classes
  without a value of their own inherit \<^verbatim>\<open>NonHierarchyObject.setimmediatevalue\<close>; on a
  \<^verbatim>\<open>HierarchyObject\<close> the name goes to \<^verbatim>\<open>__getattr__\<close>, and a child object is not callable.
\<close>

definition setimmediatevalue :: "simulator \<Rightarrow> nat \<Rightarrow> ref \<Rightarrow> pyval \<Rightarrow> state \<Rightarrow> (error + unit) \<times> state" where
  "setimmediatevalue sim d r v s =
     (case p_cls (heap s ! r) of
        HierarchyObject \<Rightarrow>
          (case HierarchyObject_getattr sim r ''setimmediatevalue'' s of
             (Inl e, s1) \<Rightarrow> (Inl e, s1)
           | (Inr _, s1) \<Rightarrow> (Inl (TypeError NotCallable), s1))
      | HierarchyArrayObject \<Rightarrow> (Inl (AttributeError NoAttribute (p_name (heap s ! r)) ''setimmediatevalue''), s)
      | ConstantObject \<Rightarrow> (Inl (TypeError NotPermissibleSet), s)
      | NonHierarchyIndexableObject \<Rightarrow> (Inl (TypeError NotPermissibleSet), s)
      | ModifiableObject \<Rightarrow> ModifiableObject_setimmediatevalue sim d r v s
      | RealObject \<Rightarrow> RealObject_setimmediatevalue sim d r v s
      | EnumObject \<Rightarrow> IntegerObject_setimmediatevalue sim d r v s
      | IntegerObject \<Rightarrow> IntegerObject_setimmediatevalue sim d r v s
      | StringObject \<Rightarrow> StringObject_setimmediatevalue sim d r v s)"

section \<open>A small design\<close>

text \<open>
  A simulator with one module \<^verbatim>\<open>top\<close> (handle 1) holding the registers \<^verbatim>\<open>clk\<close> (1 bit),
  \<^verbatim>\<open>data\<close> (8 bits) and \<^verbatim>\<open>wide\<close> (64 bits), the constant integer \<^verbatim>\<open>WIDTH\<close>, an object
  \<^verbatim>\<open>mystery\<close> and a constant \<^verbatim>\<open>odd\<close> of the unknown type 0, and the array \<^verbatim>\<open>mem\<close> of
  declared range (7, 0) whose integer element at index \<open>i\<close> has handle \<open>100 + i\<close> and
  holds \<open>17 - i\<close>. The type constants are those of GPI.
\<close>

definition dut_name :: "handle \<Rightarrow> string" where
  "dut_name h = (if h = 1 then ''top'' else if h = 2 then ''clk'' else if h = 3 then ''data''
     else if h = 4 then ''wide'' else if h = 5 then ''WIDTH'' else if h = 6 then ''mystery''
     else if h = 7 then ''mem'' else if h = 8 then ''odd'' else ''elem'')"

definition dut_type :: "handle \<Rightarrow> int" where
  "dut_type h = (if h = 1 then 2 else if h \<in> {2, 3, 4} then 5 else if h = 5 then 10
     else if h = 7 then 6 else if 100 \<le> h \<and> h \<le> 107 then 10 else 0)"

definition dut_child :: "handle \<Rightarrow> string \<Rightarrow> handle" where
  "dut_child h name = (if h \<noteq> 1 then 0 else if name = ''clk'' then 2 else if name = ''data'' then 3
     else if name = ''wide'' then 4 else if name = ''WIDTH'' then 5 else if name = ''mystery'' then 6
     else if name = ''mem'' then 7 else if name = ''odd'' then 8 else 0)"

definition dut_index :: "handle \<Rightarrow> int \<Rightarrow> handle" where
  "dut_index h i = (if h = 7 \<and> 0 \<le> i \<and> i \<le> 7 then 100 + i else 0)"

definition dut_num_elems :: "handle \<Rightarrow> nat" where
  "dut_num_elems h = (if h = 2 then 1 else if h = 3 then 8 else if h = 4 then 64 else if h = 7 then 8 else 0)"

definition dut_long :: "handle \<Rightarrow> int" where
  "dut_long h = (if 100 \<le> h \<and> h \<le> 107 then 117 - h else if h = 5 then 8 else 0)"

definition dut_binstr :: "handle \<Rightarrow> string" where
  "dut_binstr h = (if h = 2 then ''0'' else if h = 3 then ''11001000'' else if h = 8 then ''1010'' else [])"

definition dut :: simulator where
  "dut = \<lparr>get_name_string = dut_name,
          get_type_string = (\<lambda>h. ''GPI''),
          get_definition_name = (\<lambda>h. []),
          get_definition_file = (\<lambda>h. []),
          get_num_elems = dut_num_elems,
          get_type = dut_type,
          get_const = (\<lambda>h. h = 5 \<or> h = 8),
          get_handle_by_name = dut_child,
          get_handle_by_index = dut_index,
          get_range = (\<lambda>h. if h = 7 \<or> h = 3 then Some (7, 0) else None),
          iterate_objects = (\<lambda>h. if h = 1 then [2, 3, 6, 7, 5] else []),
          get_signal_val_long = dut_long,
          get_signal_val_real = (\<lambda>h. PyFloat 0 0),
          get_signal_val_str = (\<lambda>h. []),
          get_signal_val_binstr = dut_binstr,
          MODULE = 2, STRUCTURE = 8, REG = 5, NET = 3, NETARRAY = 6, REAL = 9,
          INTEGER = 10, ENUM = 7, STRING = 11, GENARRAY = 12,
          binstr_accepts = list_all (\<lambda>c. c \<in> set ''01xXzZ''),
          re_match_index = (\<lambda>p n m. Inr None),
          py_float = (\<lambda>v. case v of VFloat x \<Rightarrow> Inr x | VInt i \<Rightarrow> Inr (PyFloat i 0) | _ \<Rightarrow> Inl (TypeError UnsupportedType)),
          binary_int = (\<lambda>b. 0)\<rparr>"

text \<open>The process before any handle is resolved, and after resolving one handle of the design.\<close>

definition s_empty :: state where
  "s_empty = \<lparr>heap = [], handle2obj = Map.empty, deprecation_warned = {}, native_queries = [],
              native_writes = [], pending_writes = [], log = []\<rparr>"

definition resolved :: "handle \<Rightarrow> state" where
  "resolved h = snd (SimHandle dut h None s_empty)"

section \<open>Notions used in the properties\<close>

text \<open>The classes whose \<^verbatim>\<open>value\<close> setter is the one of \<^verbatim>\<open>ModifiableObject\<close>.\<close>

definition is_modifiable :: "cls \<Rightarrow> bool" where
  "is_modifiable c = (c \<in> set [ModifiableObject, RealObject, EnumObject, IntegerObject, StringObject])"

text \<open>
  The number whose digits in base \<open>2 ^ b\<close> are the elements of the list, the first
  element being the least significant digit.
\<close>

fun digits_value :: "nat \<Rightarrow> int list \<Rightarrow> int" where
  "digits_value b [] = 0"
| "digits_value b (v # vs) = v + 2 ^ b * digits_value b vs"

text \<open>
  The identity cache is sound: every object of the heap is the entry of \<^verbatim>\<open>_handle2obj\<close> for
  its own handle, every entry is an object with that handle, and every child kept in a
  \<^verbatim>\<open>_sub_handles\<close> dictionary is an object of the heap.
\<close>

definition cache_inv :: "state \<Rightarrow> bool" where
  "cache_inv s \<longleftrightarrow>
     (\<forall>r < length (heap s). handle2obj s (p_handle (heap s ! r)) = Some r)
   \<and> (\<forall>h r. handle2obj s h = Some r \<longrightarrow> r < length (heap s) \<and> p_handle (heap s ! r) = h)
   \<and> (\<forall>r < length (heap s). \<forall>k c. p_sub_handles (heap s ! r) k = Some c \<longrightarrow> c < length (heap s))"

text \<open>What never changes in an object once it is built; its children, once found, stay.\<close>

definition same_identity :: "proxy \<Rightarrow> proxy \<Rightarrow> bool" where
  "same_identity a b \<longleftrightarrow>
     p_handle b = p_handle a \<and> p_cls b = p_cls a \<and> p_name b = p_name a \<and> p_path b = p_path a
   \<and> p_fullname b = p_fullname a \<and> p_range b = p_range a \<and> p_value b = p_value a
   \<and> (\<forall>k. p_sub_handles a k \<noteq> None \<longrightarrow> p_sub_handles b k \<noteq> None)"

text \<open>
  A later state: the heap and the identity cache only gain entries, the objects keep
  their identity, the log only gains records.
\<close>

definition grows :: "state \<Rightarrow> state \<Rightarrow> bool" where
  "grows s s' \<longleftrightarrow>
     length (heap s) \<le> length (heap s')
   \<and> (\<forall>h c. handle2obj s h = Some c \<longrightarrow> handle2obj s' h = Some c)
   \<and> (\<forall>r < length (heap s). same_identity (heap s ! r) (heap s' ! r))
   \<and> (\<exists>l. log s' = log s @ l)"

text \<open>The handles for which the factory returns an object.\<close>

definition resolvable :: "simulator \<Rightarrow> state \<Rightarrow> handle \<Rightarrow> bool" where
  "resolvable sim s h \<longleftrightarrow>
     handle2obj s h \<noteq> None
   \<or> (get_const sim h \<and> get_type sim h \<notin> set [MODULE sim, STRUCTURE sim, NETARRAY sim, GENARRAY sim])
   \<or> type2cls sim (get_type sim h) \<noteq> None"

text \<open>A step to a later state that keeps the identity cache sound.\<close>

definition pres :: "state \<Rightarrow> state \<Rightarrow> bool" where
  "pres s s' \<longleftrightarrow> grows s s' \<and> (cache_inv s \<longrightarrow> cache_inv s')"

text \<open>
  One call of an operation of the module on an object of the heap, with whatever the
  simulator answers during that call.
\<close>

inductive step :: "state \<Rightarrow> state \<Rightarrow> bool" where
  resolve: "step s (snd (SimHandle sim h p s))"
| getattr: "r < length (heap s) \<Longrightarrow> step s (snd (HierarchyObject_getattr sim r n s))"
| hasattr: "r < length (heap s) \<Longrightarrow> step s (snd (HierarchyObject_hasattr sim r n s))"
| id: "r < length (heap s) \<Longrightarrow> step s (snd (HierarchyObject_id sim r n s))"
| discover: "r < length (heap s) \<Longrightarrow> step s (snd (RegionObject_discover_all sim r s))"
| array_getitem: "r < length (heap s) \<Longrightarrow> step s (snd (HierarchyArrayObject_getitem sim r i s))"
| getitem: "r < length (heap s) \<Longrightarrow> step s (snd (NonHierarchyIndexableObject_getitem sim r i s))"
| len: "r < length (heap s) \<Longrightarrow> step s (snd (SimHandleBase_len sim r s))"
| get: "r < length (heap s) \<Longrightarrow> step s (snd (get_value sim d r s))"
| set: "r < length (heap s) \<Longrightarrow> step s (snd (set_value sim d r v s))"
| le: "r < length (heap s) \<Longrightarrow> step s (snd (NonHierarchyObject_le sim d r v s))"
| setimmediate: "r < length (heap s) \<Longrightarrow> step s (snd (setimmediatevalue sim d r v s))"

text \<open>The process after resolving \<^verbatim>\<open>top\<close> and then \<^verbatim>\<open>data\<close> under the path \<^verbatim>\<open>top.data\<close>.\<close>

definition s_top_data :: state where
  "s_top_data = snd (SimHandle dut 3 (Some ''top.data'') (resolved 1))"

text \<open>
  The same design with a gap in \<^verbatim>\<open>mem\<close>: the simulator has no object at index 5. \<open>s_sparse\<close>
  is the process after resolving \<^verbatim>\<open>mem\<close> there.
\<close>

definition sparse :: simulator where
  "sparse = dut\<lparr>get_handle_by_index := (\<lambda>h i. if i = 5 then 0 else dut_index h i)\<rparr>"

definition s_sparse :: state where
  "s_sparse = snd (SimHandle sparse 7 None s_empty)"

text \<open>
  The class that \<^verbatim>\<open>SimHandle\<close> chooses for a handle: \<^verbatim>\<open>ConstantObject\<close> for a constant that is
  no module, structure or array, and the entry of \<^verbatim>\<open>_type2cls\<close> otherwise.
\<close>

definition class_of :: "simulator \<Rightarrow> handle \<Rightarrow> cls option" where
  "class_of sim h =
     (if get_const sim h \<and> get_type sim h \<notin> set [MODULE sim, STRUCTURE sim, NETARRAY sim, GENARRAY sim]
      then Some ConstantObject else type2cls sim (get_type sim h))"

text \<open>The classes of the objects that hold one value, not a list of elements or children.\<close>

definition is_scalar :: "cls \<Rightarrow> bool" where
  "is_scalar c = (c \<in> set [ConstantObject, ModifiableObject, RealObject, EnumObject, IntegerObject, StringObject])"

text \<open>
  The value that the simulator holds for the handle of such an object, as the \<^verbatim>\<open>value\<close>
  getter of its class reads it.
\<close>

definition element_value :: "simulator \<Rightarrow> handle \<Rightarrow> pyval" where
  "element_value sim h =
     (case class_of sim h of
        Some ConstantObject \<Rightarrow> ConstantObject_read sim h (get_type sim h)
      | Some ModifiableObject \<Rightarrow>
          VBin (BinaryValue (FromStr (get_signal_val_binstr sim h)) (length (get_signal_val_binstr sim h)) True)
      | Some RealObject \<Rightarrow> VFloat (get_signal_val_real sim h)
      | Some EnumObject \<Rightarrow> VInt (get_signal_val_long sim h)
      | Some IntegerObject \<Rightarrow> VInt (get_signal_val_long sim h)
      | Some StringObject \<Rightarrow> VStr (get_signal_val_str sim h)
      | _ \<Rightarrow> VList [])"

text \<open>The expression \<^verbatim>\<open>arr[i].value\<close> on a \<^verbatim>\<open>NonHierarchyIndexableObject\<close>.\<close>

definition item_value :: "simulator \<Rightarrow> nat \<Rightarrow> ref \<Rightarrow> int \<Rightarrow> state \<Rightarrow> (error + pyval) \<times> state" where
  "item_value sim d r i s =
     (case NonHierarchyIndexableObject_getitem sim r i s of
        (Inl e, s1) \<Rightarrow> (Inl e, s1)
      | (Inr c, s1) \<Rightarrow> get_value sim d c s1)"

text \<open>
  The objects in \<^verbatim>\<open>_handle2obj\<close> are those that the factory builds from what the simulator
  answers now: each is the object of its handle, has the class that \<^verbatim>\<open>SimHandle\<close> chooses
  for it, and a constant holds the value that the simulator reports.
\<close>

definition agrees :: "simulator \<Rightarrow> state \<Rightarrow> bool" where
  "agrees sim s \<longleftrightarrow>
     (\<forall>h c. handle2obj s h = Some c \<longrightarrow>
        c < length (heap s) \<and> p_handle (heap s ! c) = h \<and> class_of sim h = Some (p_cls (heap s ! c))
        \<and> (p_cls (heap s ! c) = ConstantObject \<longrightarrow>
             p_value (heap s ! c) = Some (ConstantObject_read sim h (get_type sim h))))"

text \<open>
  Such a state with an array \<open>a\<close> of handle \<open>hr\<close> and declared range \<open>rg\<close>, whose cached
  elements are the objects of the handles that the simulator gives for their indices.
\<close>

definition arr_inv :: "simulator \<Rightarrow> ref \<Rightarrow> handle \<Rightarrow> int \<times> int \<Rightarrow> state \<Rightarrow> bool" where
  "arr_inv sim a hr rg s \<longleftrightarrow>
     agrees sim s \<and> a < length (heap s) \<and> p_handle (heap s ! a) = hr \<and> p_range (heap s ! a) = Some rg
   \<and> (\<forall>i c. p_sub_handles (heap s ! a) (KIdx i) = Some c \<longrightarrow>
         handle2obj s (get_handle_by_index sim hr i) = Some c)"

section \<open>Properties\<close>

subsection \<open>The small design, evaluated\<close>

lemmas dut_simps = dut_def dut_name_def dut_type_def dut_child_def dut_index_def dut_num_elems_def
  dut_long_def dut_binstr_def

lemmas object_defs = construct_def ConstantObject_init_def ConstantObject_read_def
  NonHierarchyIndexableObject_init_def RegionObject_init_def SimHandleBase_init_def

lemma resolved_data:
  "resolved 3 = \<lparr>heap = [construct dut ModifiableObject 3 None], handle2obj = [3 \<mapsto> 0],
      deprecation_warned = {}, native_queries = [], native_writes = [], pending_writes = [],
      log = [(DEBUG, Created)]\<rparr>"
  by (simp add: resolved_def s_empty_def SimHandle_def register_def type2cls_def log_msg_def dut_simps)

lemma resolved_data_cls: "p_cls (heap (resolved 3) ! 0) = ModifiableObject"
  by (simp add: resolved_data construct_def NonHierarchyIndexableObject_init_def SimHandleBase_init_def)

lemma resolved_data_handle: "p_handle (heap (resolved 3) ! 0) = 3"
  by (simp add: resolved_data construct_def NonHierarchyIndexableObject_init_def SimHandleBase_init_def)

lemma resolved_WIDTH:
  "resolved 5 = \<lparr>heap = [ConstantObject_init dut 5 None 10], handle2obj = [5 \<mapsto> 0],
      deprecation_warned = {}, native_queries = [], native_writes = [], pending_writes = [],
      log = [(DEBUG, Created)]\<rparr>"
  by (simp add: resolved_def s_empty_def SimHandle_def register_def type2cls_def log_msg_def dut_simps)

subsection \<open>Write actions\<close>

text \<open>
  Claim C5. On a modifiable object, a written value that is no write action gives the
  pair (value, 0); \<^verbatim>\<open>Deposit(x)\<close> gives (x, 0); \<^verbatim>\<open>Force(x)\<close> gives (x, 1);
  \<^verbatim>\<open>Freeze\<close> gives the value that the object's getter reads when the write is issued,
  with 1, and that read succeeds and changes nothing; \<^verbatim>\<open>Release\<close> gives (0, 2).
\<close>

theorem check_for_set_action_pairs:
  assumes "is_modifiable (p_cls (heap s ! r))"
  shows "(\<not> is_SetAction v \<longrightarrow> check_for_set_action sim (Suc d) r v s = (Inr (v, 0), s))
       \<and> check_for_set_action sim (Suc d) r (Deposit x) s = (Inr (x, 0), s)
       \<and> check_for_set_action sim (Suc d) r (Force x) s = (Inr (x, 1), s)
       \<and> (\<exists>cur. get_value sim (Suc d) r s = (Inr cur, s)
              \<and> check_for_set_action sim (Suc d) r Freeze s = (Inr (cur, 1), s))
       \<and> check_for_set_action sim (Suc d) r Release s = (Inr (VInt 0, 2), s)"
  using assms
  by (cases "p_cls (heap s ! r)")
     (simp_all add: check_for_set_action_def as_gpi_args_for_def is_SetAction_def is_modifiable_def Let_def)

theorem check_for_set_action_pairs_witness:
  "is_modifiable (p_cls (heap (resolved 3) ! 0))
   \<and> check_for_set_action dut 1 0 (VInt 5) (resolved 3) = (Inr (VInt 5, 0), resolved 3)
   \<and> check_for_set_action dut 1 0 (Deposit (VInt 5)) (resolved 3) = (Inr (VInt 5, 0), resolved 3)
   \<and> check_for_set_action dut 1 0 (Force (VInt 5)) (resolved 3) = (Inr (VInt 5, 1), resolved 3)
   \<and> check_for_set_action dut 1 0 Freeze (resolved 3)
       = (Inr (VBin (BinaryValue (FromStr ''11001000'') 8 True), 1), resolved 3)
   \<and> check_for_set_action dut 1 0 Release (resolved 3) = (Inr (VInt 0, 2), resolved 3)"
proof -
  have m: "is_modifiable (p_cls (heap (resolved 3) ! 0))"
    by (simp add: resolved_data_cls is_modifiable_def)
  have g: "get_value dut (Suc 0) 0 (resolved 3)
             = (Inr (VBin (BinaryValue (FromStr ''11001000'') 8 True)), resolved 3)"
    by (simp add: resolved_data_cls resolved_data_handle) (simp add: dut_simps)
  from check_for_set_action_pairs
         [where s = "resolved 3" and r = 0 and v = "VInt 5" and sim = dut and d = 0 and x = "VInt 5"] g m
  show ?thesis by (simp add: is_SetAction_def)
qed

subsection \<open>Constants\<close>

text \<open>
  Claim C8. Reading a constant object returns the value stored in it at construction,
  whatever the simulator answers at the time of the read; \<^verbatim>\<open>setimmediatevalue\<close> and
  the assignment to \<^verbatim>\<open>value\<close> both raise the \<^verbatim>\<open>TypeError\<close> "Not permissible to set
  values" and leave the whole state, the stored value included, as it was.
\<close>

theorem constant_read_only:
  assumes "p_cls (heap s ! c) = ConstantObject" "p_value (heap s ! c) = Some v"
  shows "get_value sim (Suc d) c s = (Inr v, s)
       \<and> setimmediatevalue sim (Suc d) c x s = (Inl (TypeError NotPermissibleSet), s)
       \<and> set_value sim (Suc d) c x s = (Inl (TypeError NotPermissibleSet), s)"
  using assms by (simp add: setimmediatevalue_def)

theorem constant_read_only_witness:
  "p_cls (heap (resolved 5) ! 0) = ConstantObject
   \<and> p_value (heap (resolved 5) ! 0) = Some (VInt 8)
   \<and> get_value dut 1 0 (resolved 5) = (Inr (VInt 8), resolved 5)
   \<and> setimmediatevalue dut 1 0 (VInt 3) (resolved 5) = (Inl (TypeError NotPermissibleSet), resolved 5)
   \<and> set_value dut 1 0 (VInt 3) (resolved 5) = (Inl (TypeError NotPermissibleSet), resolved 5)"
proof -
  have a: "p_cls (heap (resolved 5) ! 0) = ConstantObject"
    by (simp add: resolved_WIDTH ConstantObject_init_def SimHandleBase_init_def)
  have b: "p_value (heap (resolved 5) ! 0) = Some (VInt 8)"
    by (simp add: resolved_WIDTH ConstantObject_init_def SimHandleBase_init_def ConstantObject_read_def dut_simps)
  from constant_read_only [OF a b, where sim = dut and d = 0 and x = "VInt 3"] a b
  show ?thesis by simp
qed

subsection \<open>The operator \<^verbatim>\<open><=\<close>\<close>

text \<open>
  Claim C10, as stated, fails: \<^verbatim>\<open>WIDTH\<close> is a \<^verbatim>\<open>ConstantObject\<close>, which is a
  \<^verbatim>\<open>NonHierarchyObject\<close>; \<^verbatim>\<open>WIDTH <= 1\<close> raises the \<^verbatim>\<open>TypeError\<close> of the \<^verbatim>\<open>value\<close> setter,
  so that no \<^verbatim>\<open>_AssignmentResult\<close> is returned, and no write is made.
\<close>

theorem le_on_constant_counterexample:
  "p_cls (heap (resolved 5) ! 0) = ConstantObject
   \<and> NonHierarchyObject_le dut 1 0 (VInt 1) (resolved 5)
        = (Inl (TypeError NotPermissibleSet), resolved 5)"
proof -
  have a: "p_cls (heap (resolved 5) ! 0) = ConstantObject"
    by (simp add: resolved_WIDTH ConstantObject_init_def SimHandleBase_init_def)
  have b: "NonHierarchyObject_le dut 1 0 (VInt 1) (resolved 5)
        = (Inl (TypeError NotPermissibleSet), resolved 5)"
    by (simp add: NonHierarchyObject_le_def a)
  show ?thesis using a b by simp
qed

text \<open>
  Claim C10, amended. Evaluating \<^verbatim>\<open>s <= v\<close> leaves the state that the assignment
  \<^verbatim>\<open>s.value = v\<close> leaves; an exception of the assignment is the exception of \<^verbatim>\<open>s <= v\<close>,
  which then returns nothing; and when the assignment returns, \<^verbatim>\<open>s <= v\<close> returns the
  \<^verbatim>\<open>_AssignmentResult\<close> of \<open>s\<close> and \<open>v\<close>. On a modifiable object the assignment always
  returns: both hand the write (s, v) to the scheduler, and \<^verbatim>\<open>s <= v\<close> returns the
  \<^verbatim>\<open>_AssignmentResult\<close>. Converting any \<^verbatim>\<open>_AssignmentResult\<close> to a boolean raises
  \<^verbatim>\<open>TypeError\<close>.
\<close>

theorem le_is_deferred_write:
  "snd (NonHierarchyObject_le sim d r v s) = snd (set_value sim d r v s)
   \<and> (\<forall>e. fst (set_value sim d r v s) = Inl e \<longrightarrow> fst (NonHierarchyObject_le sim d r v s) = Inl e)
   \<and> (fst (set_value sim d r v s) = Inr () \<longrightarrow>
        fst (NonHierarchyObject_le sim d r v s) = Inr (AssignmentResult r v))
   \<and> (is_modifiable (p_cls (heap s ! r)) \<longrightarrow>
        set_value sim (Suc d) r v s = (Inr (), save_write r v s)
        \<and> NonHierarchyObject_le sim (Suc d) r v s = (Inr (AssignmentResult r v), save_write r v s))
   \<and> AssignmentResult_bool res = Inl (TypeError NotAComparison)"
proof -
  have m: "set_value sim (Suc d) r v s = (Inr (), save_write r v s)"
    if "is_modifiable (p_cls (heap s ! r))"
    using that by (cases "p_cls (heap s ! r)") (simp_all add: is_modifiable_def)
  show ?thesis
    using m by (auto simp: NonHierarchyObject_le_def AssignmentResult_bool_def split: prod.splits sum.splits)
qed

theorem le_is_deferred_write_witness:
  "fst (set_value dut 1 0 (VInt 1) (resolved 3)) = Inr ()
   \<and> is_modifiable (p_cls (heap (resolved 3) ! 0))
   \<and> NonHierarchyObject_le dut 1 0 (VInt 1) (resolved 3)
        = (Inr (AssignmentResult 0 (VInt 1)), (resolved 3)\<lparr>pending_writes := [(0, VInt 1)]\<rparr>)
   \<and> set_value dut 1 0 (VInt 1) (resolved 3) = (Inr (), (resolved 3)\<lparr>pending_writes := [(0, VInt 1)]\<rparr>)
   \<and> AssignmentResult_bool (AssignmentResult 0 (VInt 1)) = Inl (TypeError NotAComparison)
   \<and> fst (set_value dut 1 0 (VInt 1) (resolved 5)) = Inl (TypeError NotPermissibleSet)
   \<and> fst (NonHierarchyObject_le dut 1 0 (VInt 1) (resolved 5)) = Inl (TypeError NotPermissibleSet)"
proof -
  have m: "is_modifiable (p_cls (heap (resolved 3) ! 0))"
    by (simp add: resolved_data_cls is_modifiable_def)
  have p: "save_write 0 (VInt 1) (resolved 3) = (resolved 3)\<lparr>pending_writes := [(0, VInt 1)]\<rparr>"
    by (simp add: save_write_def resolved_data)
  have k: "fst (set_value dut 1 0 (VInt 1) (resolved 5)) = Inl (TypeError NotPermissibleSet)"
    by (simp add: resolved_WIDTH ConstantObject_init_def SimHandleBase_init_def)
  from le_is_deferred_write [where sim = dut and d = 0 and r = 0 and v = "VInt 1" and s = "resolved 3"
              and res = "AssignmentResult 0 (VInt 1)"]
       le_is_deferred_write [where sim = dut and d = "Suc 0" and r = 0 and v = "VInt 1" and s = "resolved 5"]
       m p k
  show ?thesis by simp
qed

subsection \<open>Immediate writes to a bit-vector object\<close>

lemma resolved_wide:
  "resolved 4 = \<lparr>heap = [construct dut ModifiableObject 4 None], handle2obj = [4 \<mapsto> 0],
      deprecation_warned = {}, native_queries = [], native_writes = [], pending_writes = [],
      log = [(DEBUG, Created)]\<rparr>"
  by (simp add: resolved_def s_empty_def SimHandle_def register_def type2cls_def log_msg_def dut_simps)

lemma construct_Modifiable_simps:
  "p_cls (construct sim ModifiableObject h p) = ModifiableObject"
  "p_handle (construct sim ModifiableObject h p) = h"
  "p_len (construct sim ModifiableObject h p) = None"
  by (simp_all add: construct_def NonHierarchyIndexableObject_init_def SimHandleBase_init_def)

lemma len_native_writes: "native_writes (snd (SimHandleBase_len sim r s)) = native_writes s"
  by (simp add: SimHandleBase_len_def update_obj_def split: option.splits)

lemma resolved_data_len: "fst (SimHandleBase_len dut 0 (resolved 3)) = 8"
  by (simp add: SimHandleBase_len_def resolved_data construct_Modifiable_simps dut_simps)

text \<open>
  Claim C6, as stated, fails: the integer 5 fits the 64 bits of \<^verbatim>\<open>wide\<close>, and the
  immediate write sends it as a bit-vector, not through the long-integer write.
\<close>

theorem setimmediatevalue_wide_counterexample:
  "p_cls (heap (resolved 4) ! 0) = ModifiableObject
   \<and> fst (SimHandleBase_len dut 0 (resolved 4)) = 64
   \<and> (0::int) \<le> 5 \<and> (5::int) < 2 ^ 64
   \<and> fst (setimmediatevalue dut 1 0 (VInt 5) (resolved 4)) = Inr ()
   \<and> native_writes (snd (setimmediatevalue dut 1 0 (VInt 5) (resolved 4)))
        = [WriteBinstr 4 0 (BinaryValue (FromInt 5) 64 False)]"
  by (simp add: resolved_wide construct_Modifiable_simps setimmediatevalue_def
      ModifiableObject_setimmediatevalue_def check_for_set_action_def is_SetAction_def
      SimHandleBase_len_def update_obj_def send_write_def dut_simps)

text \<open>
  Claim C6, amended. On a \<^verbatim>\<open>ModifiableObject\<close> of \<open>n\<close> bits the immediate write of a
  plain integer \<open>i\<close> always succeeds; it is the long-integer write of \<open>i\<close> with the
  deposit code exactly when \<open>i < 0x7fffffff\<close> and \<open>n \<le> 32\<close>, whether or not \<open>i\<close>
  fits \<open>n\<close> bits, and otherwise the bit-vector write of
  \<^verbatim>\<open>BinaryValue(value=i, n_bits=n, bigEndian=False)\<close>.
\<close>

theorem setimmediatevalue_int_path:
  assumes "p_cls (heap s ! r) = ModifiableObject"
  shows "setimmediatevalue sim (Suc d) r (VInt i) s =
           (Inr (), send_write
              (if i < 0x7fffffff \<and> fst (SimHandleBase_len sim r s) \<le> 32
               then WriteLong (p_handle (heap s ! r)) 0 i
               else WriteBinstr (p_handle (heap s ! r)) 0
                      (BinaryValue (FromInt i) (fst (SimHandleBase_len sim r s)) False))
              (snd (SimHandleBase_len sim r s)))"
  using assms
  by (simp add: setimmediatevalue_def ModifiableObject_setimmediatevalue_def check_for_set_action_def
      is_SetAction_def Let_def split_beta)

theorem setimmediatevalue_int_path_witness:
  "p_cls (heap (resolved 3) ! 0) = ModifiableObject
   \<and> native_writes (snd (setimmediatevalue dut 1 0 (VInt 200) (resolved 3))) = [WriteLong 3 0 200]
   \<and> native_writes (snd (setimmediatevalue dut 1 0 (VInt 300) (resolved 3))) = [WriteLong 3 0 300]
   \<and> native_writes (snd (setimmediatevalue dut 1 0 (VInt 0x7fffffff) (resolved 3)))
        = [WriteBinstr 3 0 (BinaryValue (FromInt 0x7fffffff) 8 False)]"
proof -
  have w: "native_writes (snd (SimHandleBase_len dut 0 (resolved 3))) = []"
    by (simp add: len_native_writes resolved_data)
  from setimmediatevalue_int_path [OF resolved_data_cls, where sim = dut and d = 0 and i = 200]
       setimmediatevalue_int_path [OF resolved_data_cls, where sim = dut and d = 0 and i = 300]
       setimmediatevalue_int_path [OF resolved_data_cls, where sim = dut and d = 0 and i = "0x7fffffff"]
  show ?thesis
    by (simp add: resolved_data_len w resolved_data_cls resolved_data_handle send_write_def)
qed

lemma pack_loop_digits:
  "0 \<le> bits \<Longrightarrow> pack_loop num vallist bits
     = Inr (num * 2 ^ (nat bits * length vallist) + digits_value (nat bits) (rev vallist))"
proof (induction vallist arbitrary: num)
  case Nil
  then show ?case by simp
next
  case (Cons val vallist)
  have d: "digits_value b (xs @ [x]) = digits_value b xs + 2 ^ (b * length xs) * x" for b xs x
    by (induction xs) (simp_all add: algebra_simps power_add)
  show ?case using Cons
    by (simp add: d algebra_simps power_add)
qed

lemma digits_value_field:
  "\<forall>v \<in> set vs. 0 \<le> v \<and> v < 2 ^ b \<Longrightarrow> k < length vs
     \<Longrightarrow> digits_value b vs div 2 ^ (b * k) mod 2 ^ b = vs ! k"
proof (induction vs arbitrary: k)
  case Nil
  then show ?case by simp
next
  case (Cons v vs)
  show ?case
  proof (cases k)
    case 0
    have "(v + 2 ^ b * digits_value b vs) mod 2 ^ b = v mod 2 ^ b" by simp
    with Cons.prems 0 show ?thesis by simp
  next
    case (Suc j)
    have v: "0 \<le> v" "v < 2 ^ b" using Cons.prems by simp_all
    have "(v + 2 ^ b * digits_value b vs) div 2 ^ (b * Suc j)
            = ((v + 2 ^ b * digits_value b vs) div 2 ^ b) div 2 ^ (b * j)"
      by (simp add: power_add zdiv_zmult2_eq)
    also have "(v + 2 ^ b * digits_value b vs) div 2 ^ b = digits_value b vs"
      using v by (simp add: div_pos_pos_trivial)
    finally show ?thesis using Cons Suc by simp
  qed
qed

text \<open>
  Claim C7, as stated, fails: for \<^verbatim>\<open>{"values": [1, 2], "bits": 4}\<close> on the 8-bit
  \<^verbatim>\<open>data\<close> the number written is 33 = 0x21, whose most significant four bits hold 2,
  the element at position 1; the element at position 0 is in the least significant four.
\<close>

theorem setimmediatevalue_dict_counterexample:
  "p_cls (heap (resolved 3) ! 0) = ModifiableObject
   \<and> fst (SimHandleBase_len dut 0 (resolved 3)) = 8
   \<and> native_writes (snd (setimmediatevalue dut 1 0 (VDict [1, 2] 4) (resolved 3)))
        = [WriteBinstr 3 0 (BinaryValue (FromInt 33) 8 False)]
   \<and> (33::int) div 2 ^ 4 mod 2 ^ 4 = 2 \<and> (33::int) mod 2 ^ 4 = 1"
  by (simp add: resolved_data construct_Modifiable_simps setimmediatevalue_def
      ModifiableObject_setimmediatevalue_def check_for_set_action_def is_SetAction_def
      SimHandleBase_len_def update_obj_def send_write_def dut_simps)

text \<open>
  Claim C7, amended. On a \<^verbatim>\<open>ModifiableObject\<close> of \<open>n\<close> bits, the immediate write of
  \<^verbatim>\<open>{"values": vals, "bits": bits}\<close> with \<open>length vals * bits = n\<close> writes
  \<^verbatim>\<open>BinaryValue(value=num, n_bits=n, bigEndian=False)\<close> where \<open>num\<close> has the elements as
  its digits in base \<open>2 ^ bits\<close>, least significant first: when every element is in
  \<open>[0, 2 ^ bits)\<close>, the element at position \<open>k\<close> is the bits \<open>bits * k\<close> to
  \<open>bits * (k + 1) - 1\<close> of \<open>num\<close>, so that position 0 is in the least significant bits and
  the last position in the most significant. With \<open>length vals * bits \<noteq> n\<close> the write raises
  the \<^verbatim>\<open>TypeError\<close> "Unable to set with array length" and nothing is written.
\<close>

theorem setimmediatevalue_dict_packing:
  assumes "p_cls (heap s ! r) = ModifiableObject"
  shows "(int (length vals) * bits = int (fst (SimHandleBase_len sim r s)) \<longrightarrow>
            setimmediatevalue sim (Suc d) r (VDict vals bits) s =
              (Inr (), send_write
                 (WriteBinstr (p_handle (heap s ! r)) 0
                    (BinaryValue (FromInt (digits_value (nat bits) vals)) (fst (SimHandleBase_len sim r s)) False))
                 (snd (SimHandleBase_len sim r s)))
            \<and> ((\<forall>v \<in> set vals. 0 \<le> v \<and> v < 2 ^ nat bits) \<longrightarrow>
                 (\<forall>k < length vals.
                    digits_value (nat bits) vals div 2 ^ (nat bits * k) mod 2 ^ nat bits = vals ! k)))
       \<and> (int (length vals) * bits \<noteq> int (fst (SimHandleBase_len sim r s)) \<longrightarrow>
            fst (setimmediatevalue sim (Suc d) r (VDict vals bits) s)
              = Inl (TypeError (ArrayLengthMismatch (length vals) bits (int (length vals) * bits)
                       (fst (SimHandleBase_len sim r s))))
            \<and> native_writes (snd (setimmediatevalue sim (Suc d) r (VDict vals bits) s)) = native_writes s)"
proof -
  obtain n s1 where l: "SimHandleBase_len sim r s = (n, s1)" by (cases "SimHandleBase_len sim r s")
  have nw: "native_writes s1 = native_writes s"
    using l by (auto simp: SimHandleBase_len_def update_obj_def split: option.splits)
  have pk: "pack_loop 0 (rev vals) bits = Inr (digits_value (nat bits) vals)"
    if "int (length vals) * bits = int n"
  proof (cases "0 \<le> bits")
    case True
    then show ?thesis by (simp add: pack_loop_digits)
  next
    case False
    have "vals = []"
    proof (rule ccontr)
      assume "vals \<noteq> []"
      then have "0 < int (length vals)" by simp
      with False have "int (length vals) * bits < 0" by (simp add: mult_pos_neg)
      with that show False by simp
    qed
    then show ?thesis by simp
  qed
  show ?thesis
    using assms l nw pk
    by (auto simp: setimmediatevalue_def ModifiableObject_setimmediatevalue_def check_for_set_action_def
        is_SetAction_def log_msg_def digits_value_field)
qed

theorem setimmediatevalue_dict_packing_witness:
  "p_cls (heap (resolved 3) ! 0) = ModifiableObject
   \<and> int (length [1, 2 :: int]) * 4 = int (fst (SimHandleBase_len dut 0 (resolved 3)))
   \<and> native_writes (snd (setimmediatevalue dut 1 0 (VDict [1, 2] 4) (resolved 3)))
        = [WriteBinstr 3 0 (BinaryValue (FromInt 33) 8 False)]
   \<and> digits_value 4 [1, 2] = 33
   \<and> digits_value 4 [1, 2] div 2 ^ (4 * 0) mod 2 ^ 4 = 1
   \<and> digits_value 4 [1, 2] div 2 ^ (4 * 1) mod 2 ^ 4 = 2
   \<and> int (length [1, 2, 3 :: int]) * 4 \<noteq> int (fst (SimHandleBase_len dut 0 (resolved 3)))
   \<and> fst (setimmediatevalue dut 1 0 (VDict [1, 2, 3] 4) (resolved 3))
        = Inl (TypeError (ArrayLengthMismatch 3 4 12 8))
   \<and> native_writes (snd (setimmediatevalue dut 1 0 (VDict [1, 2, 3] 4) (resolved 3))) = []"
proof -
  have w: "native_writes (snd (SimHandleBase_len dut 0 (resolved 3))) = []"
       "native_writes (resolved 3) = []"
    by (simp_all add: len_native_writes resolved_data)
  from setimmediatevalue_dict_packing
         [OF resolved_data_cls, where sim = dut and d = 0 and vals = "[1, 2]" and bits = 4]
       setimmediatevalue_dict_packing
         [OF resolved_data_cls, where sim = dut and d = 0 and vals = "[1, 2, 3]" and bits = 4]
  show ?thesis
    by (simp add: resolved_data_len w resolved_data_cls resolved_data_handle send_write_def)
qed

subsection \<open>Assigning a list to an array\<close>

lemma resolved_mem:
  "resolved 7 = \<lparr>heap = [construct dut NonHierarchyIndexableObject 7 None], handle2obj = [7 \<mapsto> 0],
      deprecation_warned = {}, native_queries = [], native_writes = [], pending_writes = [],
      log = [(DEBUG, Created)]\<rparr>"
  by (simp add: resolved_def s_empty_def SimHandle_def register_def type2cls_def log_msg_def dut_simps)

lemma resolved_mem_obj:
  "p_cls (heap (resolved 7) ! 0) = NonHierarchyIndexableObject"
  "p_handle (heap (resolved 7) ! 0) = 7"
  "p_len (heap (resolved 7) ! 0) = None"
  "p_range (heap (resolved 7) ! 0) = Some (7, 0)"
  "p_name (heap (resolved 7) ! 0) = ''mem''"
  "p_sub_handles (heap (resolved 7) ! 0) = Map.empty"
  by (simp_all add: resolved_mem object_defs dut_simps)

lemma resolved_mem_len: "fst (SimHandleBase_len dut 0 (resolved 7)) = 8"
  by (simp add: SimHandleBase_len_def resolved_mem_obj) (simp add: dut_simps)

text \<open>
  Claim C4. Assigning to the \<^verbatim>\<open>value\<close> of an array a list whose length differs from
  \<^verbatim>\<open>len\<close> of the array raises the \<^verbatim>\<open>ValueError\<close> "Assigning list of length"; no write
  reaches the scheduler or the simulator, no child is looked up, no object is created,
  and the only change is that the array now remembers its length in \<^verbatim>\<open>_len\<close>. With
  equal lengths the setter goes on to the loop over the declared range.
\<close>

theorem list_setter_length_mismatch:
  assumes "p_cls (heap s ! a) = NonHierarchyIndexableObject" "a < length (heap s)"
    and "n = fst (SimHandleBase_len sim a s)"
    and "s' = snd (set_value sim (Suc d) a (VList vs) s)"
  shows "(length vs \<noteq> n \<longrightarrow>
            fst (set_value sim (Suc d) a (VList vs) s)
              = Inl (ValueError (ListLengthMismatch (length vs) (p_name (heap s ! a)) n))
            \<and> pending_writes s' = pending_writes s
            \<and> native_writes s' = native_writes s
            \<and> native_queries s' = native_queries s
            \<and> handle2obj s' = handle2obj s
            \<and> heap s' = (heap s)[a := (heap s ! a)\<lparr>p_len := Some n\<rparr>])
       \<and> (length vs = n \<longrightarrow>
            set_value sim (Suc d) a (VList vs) s
              = (case p_range (heap s ! a) of
                   None \<Rightarrow> (Inl (TypeError NotSubscriptable), snd (SimHandleBase_len sim a s))
                 | Some (left, right) \<Rightarrow>
                     set_values sim d a (range_iter left right) vs (snd (SimHandleBase_len sim a s))))"
proof -
  obtain m s1 where l: "SimHandleBase_len sim a s = (m, s1)" by (cases "SimHandleBase_len sim a s")
  have h: "heap s1 = (heap s)[a := (heap s ! a)\<lparr>p_len := Some m\<rparr>]"
    and o: "pending_writes s1 = pending_writes s" "native_writes s1 = native_writes s"
           "native_queries s1 = native_queries s" "handle2obj s1 = handle2obj s"
  proof -
    have same: "x\<lparr>p_len := Some k\<rparr> = x" if "p_len x = Some k" for x :: proxy and k
      using that by (cases x) simp
    show "heap s1 = (heap s)[a := (heap s ! a)\<lparr>p_len := Some m\<rparr>]"
      using l by (auto simp: SimHandleBase_len_def update_obj_def same split: option.splits)
    show "pending_writes s1 = pending_writes s" "native_writes s1 = native_writes s"
         "native_queries s1 = native_queries s" "handle2obj s1 = handle2obj s"
      using l by (auto simp: SimHandleBase_len_def update_obj_def split: option.splits)
  qed
  have nm: "p_name (heap s1 ! a) = p_name (heap s ! a)" "p_range (heap s1 ! a) = p_range (heap s ! a)"
    using assms(2) by (simp_all add: h)
  show ?thesis
    using assms l h o nm by (simp split: option.splits)
qed

theorem list_setter_length_mismatch_witness:
  "p_cls (heap (resolved 7) ! 0) = NonHierarchyIndexableObject \<and> 0 < length (heap (resolved 7))
   \<and> fst (SimHandleBase_len dut 0 (resolved 7)) = 8
   \<and> fst (set_value dut 2 0 (VList [VInt 1, VInt 2]) (resolved 7))
        = Inl (ValueError (ListLengthMismatch 2 ''mem'' 8))
   \<and> pending_writes (snd (set_value dut 2 0 (VList [VInt 1, VInt 2]) (resolved 7))) = []
   \<and> native_writes (snd (set_value dut 2 0 (VList [VInt 1, VInt 2]) (resolved 7))) = []
   \<and> heap (snd (set_value dut 2 0 (VList [VInt 1, VInt 2]) (resolved 7)))
        = (heap (resolved 7))[0 := (heap (resolved 7) ! 0)\<lparr>p_len := Some 8\<rparr>]
   \<and> fst (set_value dut 2 0 (VList (map VInt [0, 1, 2, 3, 4, 5, 6, 7, 8])) (resolved 7))
        = Inl (ValueError (ListLengthMismatch 9 ''mem'' 8))
   \<and> pending_writes (snd (set_value dut 2 0 (VList (map VInt [0, 1, 2, 3, 4, 5, 6, 7, 8])) (resolved 7))) = []"
proof -
  have a: "p_cls (heap (resolved 7) ! 0) = NonHierarchyIndexableObject" by (rule resolved_mem_obj)
  have b: "0 < length (heap (resolved 7))" by (simp add: resolved_mem)
  have e: "pending_writes (resolved 7) = []" "native_writes (resolved 7) = []"
    by (simp_all add: resolved_mem)
  from list_setter_length_mismatch
         [OF a b resolved_mem_len [symmetric] refl, where d = 1 and vs = "[VInt 1, VInt 2]"]
       list_setter_length_mismatch
         [OF a b resolved_mem_len [symmetric] refl, where d = 1
            and vs = "map VInt [0, 1, 2, 3, 4, 5, 6, 7, 8]"]
       a b resolved_mem_len e
  show ?thesis by (simp add: resolved_mem_obj eval_nat_numeral del: set_value.simps)
qed

subsection \<open>Looking up a name that the design does not have\<close>

lemma resolved_top:
  "resolved 1 = \<lparr>heap = [construct dut HierarchyObject 1 None], handle2obj = [1 \<mapsto> 0],
      deprecation_warned = {}, native_queries = [], native_writes = [], pending_writes = [],
      log = [(DEBUG, Created)]\<rparr>"
  by (simp add: resolved_def s_empty_def SimHandle_def register_def type2cls_def log_msg_def dut_simps)

lemma resolved_top_obj:
  "p_cls (heap (resolved 1) ! 0) = HierarchyObject"
  "p_handle (heap (resolved 1) ! 0) = 1"
  "p_name (heap (resolved 1) ! 0) = ''top''"
  "p_path (heap (resolved 1) ! 0) = ''top''"
  "p_sub_handles (heap (resolved 1) ! 0) = Map.empty"
  "p_invalid_sub_handles (heap (resolved 1) ! 0) = {}"
  "p_discovered (heap (resolved 1) ! 0) = False"
  by (simp_all add: resolved_top object_defs dut_simps)

lemma nosuch: "\<not> startswith_underscore ''nosuch''" "compat_mapping ''nosuch'' = None"
   "get_handle_by_name dut 1 ''nosuch'' = 0"
  by (simp_all add: startswith_underscore_def compat_mapping_def dut_simps)

text \<open>
  Claim C2, as stated, fails: two lookups of the absent name \<^verbatim>\<open>nosuch\<close> on \<^verbatim>\<open>top\<close>
  through \<^verbatim>\<open>__getattr__\<close> both raise \<^verbatim>\<open>AttributeError\<close>, and each of them asks the
  simulator; \<^verbatim>\<open>_invalid_sub_handles\<close> stays empty.
\<close>

theorem getattr_twice_counterexample:
  "p_cls (heap (resolved 1) ! 0) = HierarchyObject
   \<and> get_handle_by_name dut (p_handle (heap (resolved 1) ! 0)) ''nosuch'' = 0
   \<and> fst (HierarchyObject_getattr dut 0 ''nosuch'' (resolved 1))
        = Inl (AttributeError ContainsNoObject ''top'' ''nosuch'')
   \<and> fst (HierarchyObject_getattr dut 0 ''nosuch'' (snd (HierarchyObject_getattr dut 0 ''nosuch'' (resolved 1))))
        = Inl (AttributeError ContainsNoObject ''top'' ''nosuch'')
   \<and> native_queries (snd (HierarchyObject_getattr dut 0 ''nosuch''
         (snd (HierarchyObject_getattr dut 0 ''nosuch'' (resolved 1)))))
        = [ByName 1 ''nosuch'', ByName 1 ''nosuch'']
   \<and> p_invalid_sub_handles (heap (snd (HierarchyObject_getattr dut 0 ''nosuch''
         (snd (HierarchyObject_getattr dut 0 ''nosuch'' (resolved 1))))) ! 0) = {}"
proof -
  have 1: "HierarchyObject_getattr dut 0 ''nosuch'' (resolved 1)
             = (Inl (AttributeError ContainsNoObject ''top'' ''nosuch''), native_query (ByName 1 ''nosuch'') (resolved 1))"
    by (simp add: HierarchyObject_getattr_def resolved_top_obj nosuch)
  have h: "heap (native_query q s) = heap s" for q s by (simp add: native_query_def)
  have 2: "HierarchyObject_getattr dut 0 ''nosuch'' (native_query (ByName 1 ''nosuch'') (resolved 1))
             = (Inl (AttributeError ContainsNoObject ''top'' ''nosuch''),
                native_query (ByName 1 ''nosuch'') (native_query (ByName 1 ''nosuch'') (resolved 1)))"
    by (simp add: HierarchyObject_getattr_def h resolved_top_obj nosuch)
  show ?thesis
    by (simp add: 1 2 h resolved_top_obj nosuch) (simp add: native_query_def resolved_top)
qed

text \<open>
  Claim C2, amended. For a name that is not cached, does not start with an underscore,
  is no deprecated alias and has no object in the simulator, every lookup through
  \<^verbatim>\<open>__getattr__\<close> raises the \<^verbatim>\<open>AttributeError\<close> "contains no object named", asks the
  simulator once and changes nothing else, so that two lookups are two queries;
  \<^verbatim>\<open>__getattr__\<close> neither reads nor writes \<^verbatim>\<open>_invalid_sub_handles\<close>. The negative cache
  belongs to the peek \<^verbatim>\<open>__hasattr__\<close>: its first call asks the simulator once, records
  the name and returns the null handle; its second call returns \<^verbatim>\<open>None\<close> from the
  cache with no query; neither raises.
\<close>

theorem getattr_no_negative_cache:
  assumes "p_cls (heap s ! r) = HierarchyObject" "r < length (heap s)"
    and "p_sub_handles (heap s ! r) (KName n) = None"
    and "get_handle_by_name sim (p_handle (heap s ! r)) n = 0"
    and "\<not> startswith_underscore n" "compat_mapping n = None"
  shows "HierarchyObject_getattr sim r n s
           = (Inl (AttributeError ContainsNoObject (p_name (heap s ! r)) n),
              native_query (ByName (p_handle (heap s ! r)) n) s)
       \<and> HierarchyObject_getattr sim r n (native_query (ByName (p_handle (heap s ! r)) n) s)
           = (Inl (AttributeError ContainsNoObject (p_name (heap s ! r)) n),
              native_query (ByName (p_handle (heap s ! r)) n) (native_query (ByName (p_handle (heap s ! r)) n) s))
       \<and> (n \<notin> p_invalid_sub_handles (heap s ! r) \<longrightarrow>
            HierarchyObject_hasattr sim r n s
              = (Inr (PeekHandle 0), set_invalid_sub_handle r n (native_query (ByName (p_handle (heap s ! r)) n) s))
            \<and> HierarchyObject_hasattr sim r n
                (set_invalid_sub_handle r n (native_query (ByName (p_handle (heap s ! r)) n) s))
              = (Inr PeekNone, set_invalid_sub_handle r n (native_query (ByName (p_handle (heap s ! r)) n) s))
            \<and> HierarchyObject_getattr sim r n
                (set_invalid_sub_handle r n (native_query (ByName (p_handle (heap s ! r)) n) s))
              = (Inl (AttributeError ContainsNoObject (p_name (heap s ! r)) n),
                 native_query (ByName (p_handle (heap s ! r)) n)
                   (set_invalid_sub_handle r n (native_query (ByName (p_handle (heap s ! r)) n) s))))
       \<and> (n \<in> p_invalid_sub_handles (heap s ! r) \<longrightarrow>
            HierarchyObject_hasattr sim r n s = (Inr PeekNone, s))"
proof -
  have h: "heap (native_query q s) = heap s" for q s by (simp add: native_query_def)
  define s1 where "s1 = set_invalid_sub_handle r n (native_query (ByName (p_handle (heap s ! r)) n) s)"
  have u: "p_sub_handles (heap s1 ! r) = p_sub_handles (heap s ! r)"
          "p_handle (heap s1 ! r) = p_handle (heap s ! r)"
          "p_name (heap s1 ! r) = p_name (heap s ! r)"
          "n \<in> p_invalid_sub_handles (heap s1 ! r)"
    using assms(2) by (simp_all add: s1_def set_invalid_sub_handle_def update_obj_def h)
  show ?thesis
    using assms u
    by (simp add: HierarchyObject_getattr_def HierarchyObject_hasattr_def h s1_def [symmetric])
qed

theorem getattr_no_negative_cache_witness:
  "p_cls (heap (resolved 1) ! 0) = HierarchyObject \<and> 0 < length (heap (resolved 1))
   \<and> p_sub_handles (heap (resolved 1) ! 0) (KName ''nosuch'') = None
   \<and> get_handle_by_name dut (p_handle (heap (resolved 1) ! 0)) ''nosuch'' = 0
   \<and> \<not> startswith_underscore ''nosuch'' \<and> compat_mapping ''nosuch'' = None
   \<and> ''nosuch'' \<notin> p_invalid_sub_handles (heap (resolved 1) ! 0)
   \<and> fst (HierarchyObject_hasattr dut 0 ''nosuch'' (resolved 1)) = Inr (PeekHandle 0)
   \<and> native_queries (snd (HierarchyObject_hasattr dut 0 ''nosuch'' (resolved 1))) = [ByName 1 ''nosuch'']
   \<and> HierarchyObject_hasattr dut 0 ''nosuch'' (snd (HierarchyObject_hasattr dut 0 ''nosuch'' (resolved 1)))
        = (Inr PeekNone, snd (HierarchyObject_hasattr dut 0 ''nosuch'' (resolved 1)))
   \<and> HierarchyObject_getattr dut 0 ''nosuch'' (resolved 1)
        = (Inl (AttributeError ContainsNoObject ''top'' ''nosuch''), native_query (ByName 1 ''nosuch'') (resolved 1))"
proof -
  have a: "p_cls (heap (resolved 1) ! 0) = HierarchyObject" by (rule resolved_top_obj)
  have b: "0 < length (heap (resolved 1))" by (simp add: resolved_top)
  have c: "p_sub_handles (heap (resolved 1) ! 0) (KName ''nosuch'') = None" by (simp add: resolved_top_obj)
  have d: "get_handle_by_name dut (p_handle (heap (resolved 1) ! 0)) ''nosuch'' = 0"
    by (simp add: resolved_top_obj nosuch)
  have i: "''nosuch'' \<notin> p_invalid_sub_handles (heap (resolved 1) ! 0)" by (simp add: resolved_top_obj)
  have q: "native_queries (set_invalid_sub_handle 0 ''nosuch'' (native_query (ByName 1 ''nosuch'') (resolved 1)))
            = [ByName 1 ''nosuch'']"
    by (simp add: set_invalid_sub_handle_def update_obj_def native_query_def resolved_top)
  note T = getattr_no_negative_cache [OF a b c d nosuch(1) nosuch(2)]
  from T i have g: "HierarchyObject_getattr dut 0 ''nosuch'' (resolved 1)
        = (Inl (AttributeError ContainsNoObject ''top'' ''nosuch''), native_query (ByName 1 ''nosuch'') (resolved 1))"
    and h1: "HierarchyObject_hasattr dut 0 ''nosuch'' (resolved 1)
              = (Inr (PeekHandle 0), set_invalid_sub_handle 0 ''nosuch'' (native_query (ByName 1 ''nosuch'') (resolved 1)))"
    and h2: "HierarchyObject_hasattr dut 0 ''nosuch''
                (set_invalid_sub_handle 0 ''nosuch'' (native_query (ByName 1 ''nosuch'') (resolved 1)))
              = (Inr PeekNone, set_invalid_sub_handle 0 ''nosuch'' (native_query (ByName 1 ''nosuch'') (resolved 1)))"
    by (simp_all add: resolved_top_obj)
  show ?thesis
    using a b c d i nosuch(1,2) by (simp add: g h1 h2 q)
qed

subsection \<open>The identity cache is sound in every step\<close>

lemma same_identity_refl [simp]: "same_identity a a"
  by (simp add: same_identity_def)

lemma same_identity_trans: "same_identity a b \<Longrightarrow> same_identity b c \<Longrightarrow> same_identity a c"
  by (simp add: same_identity_def)

lemma grows_refl [simp]: "grows s s"
  by (simp add: grows_def)

lemma grows_trans: "grows s s1 \<Longrightarrow> grows s1 s2 \<Longrightarrow> grows s s2"
  unfolding grows_def
  by (auto intro: same_identity_trans)

text \<open>The elementary state changes.\<close>

lemma log_msg_fields [simp]:
  "heap (log_msg l m s) = heap s" "handle2obj (log_msg l m s) = handle2obj s"
  "native_queries (log_msg l m s) = native_queries s" "native_writes (log_msg l m s) = native_writes s"
  "pending_writes (log_msg l m s) = pending_writes s" "log (log_msg l m s) = log s @ [(l, m)]"
  by (simp_all add: log_msg_def)

lemma native_query_fields [simp]:
  "heap (native_query q s) = heap s" "handle2obj (native_query q s) = handle2obj s"
  "native_queries (native_query q s) = native_queries s @ [q]" "native_writes (native_query q s) = native_writes s"
  "pending_writes (native_query q s) = pending_writes s" "log (native_query q s) = log s"
  by (simp_all add: native_query_def)

lemma send_write_fields [simp]:
  "heap (send_write w s) = heap s" "handle2obj (send_write w s) = handle2obj s"
  "native_queries (send_write w s) = native_queries s" "native_writes (send_write w s) = native_writes s @ [w]"
  "pending_writes (send_write w s) = pending_writes s" "log (send_write w s) = log s"
  by (simp_all add: send_write_def)

lemma save_write_fields [simp]:
  "heap (save_write r v s) = heap s" "handle2obj (save_write r v s) = handle2obj s"
  "native_queries (save_write r v s) = native_queries s" "native_writes (save_write r v s) = native_writes s"
  "pending_writes (save_write r v s) = pending_writes s @ [(r, v)]" "log (save_write r v s) = log s"
  by (simp_all add: save_write_def)

lemma update_obj_fields [simp]:
  "heap (update_obj r f s) = (heap s)[r := f (heap s ! r)]" "handle2obj (update_obj r f s) = handle2obj s"
  "native_queries (update_obj r f s) = native_queries s" "native_writes (update_obj r f s) = native_writes s"
  "pending_writes (update_obj r f s) = pending_writes s" "log (update_obj r f s) = log s"
  by (simp_all add: update_obj_def)

lemma set_sub_handle_fields [simp]:
  "heap (set_sub_handle r k c s) = (heap s)[r := (heap s ! r)\<lparr>p_sub_handles := (p_sub_handles (heap s ! r))(k \<mapsto> c)\<rparr>]"
  "handle2obj (set_sub_handle r k c s) = handle2obj s"
  "native_queries (set_sub_handle r k c s) = native_queries s" "native_writes (set_sub_handle r k c s) = native_writes s"
  "pending_writes (set_sub_handle r k c s) = pending_writes s" "log (set_sub_handle r k c s) = log s"
  by (simp_all add: set_sub_handle_def)

lemma set_invalid_sub_handle_fields [simp]:
  "heap (set_invalid_sub_handle r n s)
     = (heap s)[r := (heap s ! r)\<lparr>p_invalid_sub_handles := insert n (p_invalid_sub_handles (heap s ! r))\<rparr>]"
  "handle2obj (set_invalid_sub_handle r n s) = handle2obj s"
  "native_queries (set_invalid_sub_handle r n s) = native_queries s" "native_writes (set_invalid_sub_handle r n s) = native_writes s"
  "pending_writes (set_invalid_sub_handle r n s) = pending_writes s" "log (set_invalid_sub_handle r n s) = log s"
  by (simp_all add: set_invalid_sub_handle_def)

lemma grows_same_heap:
  "heap s' = heap s \<Longrightarrow> handle2obj s' = handle2obj s \<Longrightarrow> \<exists>l. log s' = log s @ l \<Longrightarrow> grows s s'"
  by (simp add: grows_def)

lemma grows_log_msg [simp]: "grows s (log_msg l m s)"
  and grows_native_query [simp]: "grows s (native_query q s)"
  and grows_send_write [simp]: "grows s (send_write w s)"
  and grows_save_write [simp]: "grows s (save_write r v s)"
  by (simp_all add: grows_same_heap)

lemma grows_update_obj:
  assumes "r < length (heap s) \<Longrightarrow> same_identity (heap s ! r) (f (heap s ! r))"
  shows "grows s (update_obj r f s)"
proof -
  have "same_identity (heap s ! i) ((heap s)[r := f (heap s ! r)] ! i)" if "i < length (heap s)" for i
    using that assms by (cases "i = r") simp_all
  then show ?thesis by (simp add: grows_def)
qed

lemma grows_set_sub_handle [simp]: "grows s (set_sub_handle r k c s)"
  unfolding set_sub_handle_def by (rule grows_update_obj) (simp add: same_identity_def)

lemma grows_set_invalid_sub_handle [simp]: "grows s (set_invalid_sub_handle r n s)"
  unfolding set_invalid_sub_handle_def by (rule grows_update_obj) (simp add: same_identity_def)

lemma cache_inv_same_heap:
  "heap s' = heap s \<Longrightarrow> handle2obj s' = handle2obj s \<Longrightarrow> cache_inv s' = cache_inv s"
  by (simp add: cache_inv_def)

lemma cache_inv_simple [simp]:
  "cache_inv (log_msg l m s) = cache_inv s" "cache_inv (native_query q s) = cache_inv s"
  "cache_inv (send_write w s) = cache_inv s" "cache_inv (save_write r v s) = cache_inv s"
  by (simp_all add: cache_inv_def)

lemma cache_inv_sub:
  "cache_inv s \<Longrightarrow> r < length (heap s) \<Longrightarrow> p_sub_handles (heap s ! r) k = Some c \<Longrightarrow> c < length (heap s)"
  unfolding cache_inv_def by blast

lemma cache_inv_cached:
  "cache_inv s \<Longrightarrow> handle2obj s h = Some c \<Longrightarrow> c < length (heap s) \<and> p_handle (heap s ! c) = h"
  unfolding cache_inv_def by blast

lemma cache_inv_registered:
  "cache_inv s \<Longrightarrow> c < length (heap s) \<Longrightarrow> handle2obj s (p_handle (heap s ! c)) = Some c"
  unfolding cache_inv_def by blast

lemma cache_inv_update_obj:
  assumes "cache_inv s"
    and "r < length (heap s) \<Longrightarrow> p_handle (f (heap s ! r)) = p_handle (heap s ! r)"
    and "\<And>k c. r < length (heap s) \<Longrightarrow> p_sub_handles (f (heap s ! r)) k = Some c \<Longrightarrow> c < length (heap s)"
  shows "cache_inv (update_obj r f s)"
proof -
  let ?H = "(heap s)[r := f (heap s ! r)]"
  have hd: "p_handle (?H ! i) = p_handle (heap s ! i)" if "i < length (heap s)" for i
    using that assms(2) by (cases "i = r") simp_all
  have sub: "c < length (heap s)" if "i < length (heap s)" "p_sub_handles (?H ! i) k = Some c" for i k c
  proof (cases "i = r")
    case True
    with that assms(3) show ?thesis by simp
  next
    case False
    with that cache_inv_sub [OF assms(1), of i k c] show ?thesis by simp
  qed
  from assms(1) have a: "\<forall>i < length (heap s). handle2obj s (p_handle (heap s ! i)) = Some i"
    and b: "\<forall>h i. handle2obj s h = Some i \<longrightarrow> i < length (heap s) \<and> p_handle (heap s ! i) = h"
    unfolding cache_inv_def by blast+
  have "\<forall>i < length ?H. handle2obj s (p_handle (?H ! i)) = Some i"
    using a hd by simp
  moreover have "\<forall>h i. handle2obj s h = Some i \<longrightarrow> i < length ?H \<and> p_handle (?H ! i) = h"
    using b hd by simp
  moreover have "\<forall>i < length ?H. \<forall>k c. p_sub_handles (?H ! i) k = Some c \<longrightarrow> c < length ?H"
    using sub by simp
  ultimately show ?thesis
    unfolding cache_inv_def by simp
qed

lemma cache_inv_set_sub_handle:
  assumes "cache_inv s" "c < length (heap s)"
  shows "cache_inv (set_sub_handle r k c s)"
  unfolding set_sub_handle_def
proof (rule cache_inv_update_obj [OF assms(1)])
  fix k' c'
  assume "r < length (heap s)"
    and "p_sub_handles ((heap s ! r)\<lparr>p_sub_handles := (p_sub_handles (heap s ! r))(k \<mapsto> c)\<rparr>) k' = Some c'"
  then show "c' < length (heap s)"
    using assms cache_inv_sub [of s r k' c'] by (cases "k' = k") simp_all
qed simp

lemma cache_inv_set_invalid_sub_handle:
  assumes "cache_inv s"
  shows "cache_inv (set_invalid_sub_handle r n s)"
  unfolding set_invalid_sub_handle_def
  by (rule cache_inv_update_obj [OF assms]) (simp_all add: cache_inv_sub [OF assms])

text \<open>The factory.\<close>

lemma init_identity [simp]:
  "p_handle (ConstantObject_init sim h p t) = h" "p_sub_handles (ConstantObject_init sim h p t) = Map.empty"
  "p_handle (construct sim c h p) = h" "p_sub_handles (construct sim c h p) = Map.empty"
  by (simp_all add: object_defs split: cls.splits)

lemma SimHandle_fails:
  assumes "\<not> resolvable sim s h"
  shows "SimHandle sim h p s = (Inl (TestError (get_type sim h) p), s)"
proof -
  from assms have n: "handle2obj s h = None" "type2cls sim (get_type sim h) = None"
    and c: "\<not> (get_const sim h \<and> get_type sim h \<notin> set [MODULE sim, STRUCTURE sim, NETARRAY sim, GENARRAY sim])"
    unfolding resolvable_def by blast+
  show ?thesis
    unfolding SimHandle_def Let_def by (simp only: n if_not_P [OF c] option.case)
qed

lemma SimHandle_cached:
  "handle2obj s h = Some c \<Longrightarrow> SimHandle sim h p s = (Inr c, s)"
  by (simp add: SimHandle_def)

lemma SimHandle_new:
  assumes "resolvable sim s h" "handle2obj s h = None"
  shows "\<exists>obj. p_handle obj = h \<and> p_sub_handles obj = Map.empty \<and>
           SimHandle sim h p s = (Inr (length (heap s)),
             (log_msg DEBUG Created s)\<lparr>heap := heap s @ [obj], handle2obj := (handle2obj s)(h \<mapsto> length (heap s))\<rparr>)"
proof (cases "get_const sim h \<and> get_type sim h \<notin> set [MODULE sim, STRUCTURE sim, NETARRAY sim, GENARRAY sim]")
  case True
  have "SimHandle sim h p s = (Inr (length (heap s)),
             (log_msg DEBUG Created s)\<lparr>heap := heap s @ [ConstantObject_init sim h p (get_type sim h)],
                handle2obj := (handle2obj s)(h \<mapsto> length (heap s))\<rparr>)"
    unfolding SimHandle_def Let_def register_def
    by (simp only: assms(2) if_P [OF True] option.case prod.case)
  then show ?thesis using init_identity(1,2) by blast
next
  case False
  with assms obtain c where c: "type2cls sim (get_type sim h) = Some c"
    by (auto simp: resolvable_def)
  have "SimHandle sim h p s = (Inr (length (heap s)),
             (log_msg DEBUG Created s)\<lparr>heap := heap s @ [construct sim c h p],
                handle2obj := (handle2obj s)(h \<mapsto> length (heap s))\<rparr>)"
    unfolding SimHandle_def Let_def register_def
    by (simp only: assms(2) if_not_P [OF False] c option.case prod.case)
  then show ?thesis using init_identity(3,4) by blast
qed

lemma SimHandle_cases:
  obtains (cached) c where "handle2obj s h = Some c" "SimHandle sim h p s = (Inr c, s)"
  | (fails) "\<not> resolvable sim s h" "handle2obj s h = None"
       "SimHandle sim h p s = (Inl (TestError (get_type sim h) p), s)"
  | (new) obj where "resolvable sim s h" "handle2obj s h = None" "p_handle obj = h" "p_sub_handles obj = Map.empty"
       "SimHandle sim h p s = (Inr (length (heap s)),
          (log_msg DEBUG Created s)\<lparr>heap := heap s @ [obj], handle2obj := (handle2obj s)(h \<mapsto> length (heap s))\<rparr>)"
proof (cases "handle2obj s h")
  case (Some c)
  then show ?thesis using cached SimHandle_cached by blast
next
  case None
  show ?thesis
  proof (cases "resolvable sim s h")
    case True
    from SimHandle_new [OF True None, of p] obtain obj where
      "p_handle obj = h" "p_sub_handles obj = Map.empty"
      "SimHandle sim h p s = (Inr (length (heap s)),
          (log_msg DEBUG Created s)\<lparr>heap := heap s @ [obj], handle2obj := (handle2obj s)(h \<mapsto> length (heap s))\<rparr>)"
      by blast
    then show ?thesis using new True None by blast
  next
    case False
    then have "handle2obj s h = None" by (simp add: resolvable_def)
    with False show ?thesis using fails SimHandle_fails by blast
  qed
qed

lemma SimHandle_error:
  assumes "SimHandle sim h p s = (Inl e, s')"
  shows "s' = s \<and> e = TestError (get_type sim h) p \<and> \<not> resolvable sim s h"
  using assms by (cases rule: SimHandle_cases [of s h sim p]) simp_all

lemma SimHandle_grows: "grows s (snd (SimHandle sim h p s))"
proof (cases rule: SimHandle_cases [of s h sim p])
  case (new obj)
  have "handle2obj s k = Some c \<Longrightarrow> k \<noteq> h" for k c using new(2) by auto
  then show ?thesis
    by (simp add: new(5) grows_def nth_append)
qed simp_all

lemma SimHandle_cache_inv:
  assumes "cache_inv s"
  shows "cache_inv (snd (SimHandle sim h p s))"
proof (cases rule: SimHandle_cases [of s h sim p])
  case (new obj)
  let ?n = "length (heap s)"
  have ne: "p_handle (heap s ! i) \<noteq> h" if "i < ?n" for i
    using cache_inv_registered [OF assms that] new(2) by auto
  have 1: "((handle2obj s)(h \<mapsto> ?n)) (p_handle ((heap s @ [obj]) ! i)) = Some i" if "i < Suc ?n" for i
  proof (cases "i < ?n")
    case True
    then show ?thesis using ne cache_inv_registered [OF assms True] by (simp add: nth_append)
  next
    case False
    with that have "i = ?n" by simp
    then show ?thesis using new(3) by simp
  qed
  have 2: "i < Suc ?n \<and> p_handle ((heap s @ [obj]) ! i) = k" if "((handle2obj s)(h \<mapsto> ?n)) k = Some i" for k i
  proof (cases "k = h")
    case True
    with that have "i = ?n" by simp
    with True new(3) show ?thesis by simp
  next
    case False
    with that have "handle2obj s k = Some i" by simp
    from cache_inv_cached [OF assms this] show ?thesis by (simp add: nth_append)
  qed
  have 3: "c < Suc ?n" if "i < Suc ?n" "p_sub_handles ((heap s @ [obj]) ! i) k = Some c" for i k c
  proof (cases "i < ?n")
    case True
    with that cache_inv_sub [OF assms True, of k c] show ?thesis by (simp add: nth_append)
  next
    case False
    with that have "i = ?n" by simp
    with that new(4) show ?thesis by simp
  qed
  show ?thesis
    unfolding cache_inv_def using 1 2 3 by (simp add: new(5))
qed (simp_all add: assms)

lemma SimHandle_result:
  assumes "cache_inv s" "SimHandle sim h p s = (Inr c, s')"
  shows "c < length (heap s') \<and> handle2obj s' h = Some c \<and> p_handle (heap s' ! c) = h"
proof -
  have ci: "cache_inv s'" using SimHandle_cache_inv [OF assms(1), of sim h p] assms(2) by simp
  have "handle2obj s' h = Some c"
    using assms(2) by (cases rule: SimHandle_cases [of s h sim p]) auto
  with cache_inv_cached [OF ci] show ?thesis by blast
qed

lemma pres_refl [simp]: "pres s s"
  by (simp add: pres_def)

lemma pres_trans: "pres s s1 \<Longrightarrow> pres s1 s2 \<Longrightarrow> pres s s2"
  unfolding pres_def using grows_trans by blast

lemma pres_simple [simp]:
  "pres s (log_msg l m s)" "pres s (native_query q s)" "pres s (send_write w s)" "pres s (save_write r v s)"
  "pres s (set_invalid_sub_handle r n s)"
  by (simp_all add: pres_def cache_inv_set_invalid_sub_handle)

lemma pres_SimHandle: "pres s (snd (SimHandle sim h p s))"
  by (simp add: pres_def SimHandle_grows SimHandle_cache_inv)

lemma pres_set_sub_handle:
  "(cache_inv s \<Longrightarrow> c < length (heap s)) \<Longrightarrow> pres s (set_sub_handle r k c s)"
  by (simp add: pres_def cache_inv_set_sub_handle)

lemma pres_update_obj:
  assumes "r < length (heap s) \<Longrightarrow> same_identity (heap s ! r) (f (heap s ! r))"
    and "r < length (heap s) \<Longrightarrow> p_sub_handles (f (heap s ! r)) = p_sub_handles (heap s ! r)"
  shows "pres s (update_obj r f s)"
  unfolding pres_def
proof (intro conjI impI)
  show "grows s (update_obj r f s)" by (rule grows_update_obj) (rule assms(1))
  assume ci: "cache_inv s"
  show "cache_inv (update_obj r f s)"
  proof (rule cache_inv_update_obj [OF ci])
    show "r < length (heap s) \<Longrightarrow> p_handle (f (heap s ! r)) = p_handle (heap s ! r)"
      using assms(1) by (simp add: same_identity_def)
    show "\<And>k c. r < length (heap s) \<Longrightarrow> p_sub_handles (f (heap s ! r)) k = Some c \<Longrightarrow> c < length (heap s)"
      using assms(2) cache_inv_sub [OF ci] by simp
  qed
qed

text \<open>An object found with a valid reference, after a step that keeps the invariant.\<close>

lemma pres_SimHandle_sub:
  assumes "SimHandle sim h p s = (Inr c, s1)"
  shows "pres s (set_sub_handle r k c s1)"
proof -
  have a: "pres s s1" using pres_SimHandle [of s sim h p] assms by simp
  have "cache_inv s1 \<Longrightarrow> c < length (heap s1)"
  proof -
    assume "cache_inv s1"
    have "handle2obj s1 h = Some c"
      using assms by (cases rule: SimHandle_cases [of s h sim p]) auto
    with cache_inv_cached [OF \<open>cache_inv s1\<close>] show ?thesis by blast
  qed
  then have "pres s1 (set_sub_handle r k c s1)" by (rule pres_set_sub_handle)
  with a show ?thesis by (rule pres_trans)
qed

lemma pres_after_query:
  "pres (native_query q s) s' \<Longrightarrow> pres s s'"
  using pres_trans pres_simple(2) by blast

subsection \<open>Every operation keeps the identity cache sound\<close>

lemma pres_len: "pres s (snd (SimHandleBase_len sim r s))"
  by (auto simp: SimHandleBase_len_def same_identity_def split: option.splits intro!: pres_update_obj)

lemma pres_SimHandleBase_getattr: "pres s (snd (SimHandleBase_getattr n s))"
  by (simp add: SimHandleBase_getattr_def pres_def grows_def cache_inv_def split: option.splits)

lemma pres_array_key: "pres s (snd (HierarchyArrayObject_sub_handle_key sim r n s))"
  by (simp add: HierarchyArrayObject_sub_handle_key_def split: sum.splits option.splits)

lemma pres_sub_handle_key: "pres s (snd (sub_handle_key sim r n s))"
  using pres_array_key [of s sim r n] by (auto simp: sub_handle_key_def split: prod.splits sum.splits)

lemma pres_child_path: "pres s (snd (child_path sim r n s))"
  using pres_array_key [of s sim r n] by (auto simp: child_path_def split: prod.splits sum.splits)

lemma pres_getattr: "pres s (snd (HierarchyObject_getattr sim r n s))"
proof -
  let ?q = "native_query (ByName (p_handle (heap s ! r)) n) s"
  have a: "pres s ?q" by simp
  have b: "pres ?q (snd (SimHandleBase_getattr n ?q))" by (rule pres_SimHandleBase_getattr)
  have c: "pres ?q (set_sub_handle r k c s2)" if "SimHandle sim h p ?q = (Inr c, s2)" for h p c s2 k
    using that by (rule pres_SimHandle_sub)
  have d: "pres ?q s2" if "SimHandle sim h p ?q = (Inl e, s2)" for h p e s2
    using SimHandle_error [OF that] by simp
  show ?thesis
    unfolding HierarchyObject_getattr_def Let_def
    using pres_trans [OF a b] pres_trans [OF a c] pres_trans [OF a d] pres_SimHandleBase_getattr [of s n]
    by (auto split: option.splits prod.splits sum.splits simp del: native_query_fields)
qed


lemma pres_hasattr: "pres s (snd (HierarchyObject_hasattr sim r n s))"
proof -
  let ?q = "native_query (ByName (p_handle (heap s ! r)) n) s"
  have a: "pres s ?q" by simp
  have b: "pres ?q (set_invalid_sub_handle r n ?q)" by simp
  have c: "pres ?q (set_sub_handle r k c s2)" if "SimHandle sim h p ?q = (Inr c, s2)" for h p c s2 k
    using that by (rule pres_SimHandle_sub)
  have d: "pres ?q s2" if "SimHandle sim h p ?q = (Inl e, s2)" for h p e s2
    using SimHandle_error [OF that] by simp
  show ?thesis
    unfolding HierarchyObject_hasattr_def Let_def
    using pres_trans [OF a b] pres_trans [OF a c] pres_trans [OF a d]
    by (auto split: option.splits prod.splits sum.splits simp del: native_query_fields set_invalid_sub_handle_fields)
qed

lemma pres_id: "pres s (snd (HierarchyObject_id sim r n s))"
proof -
  let ?n = "char_of (92::nat) # n @ [char_of (92::nat)]"
  have a: "pres s (snd (HierarchyObject_hasattr sim r ?n s))" by (rule pres_hasattr)
  have b: "pres s1 (snd (HierarchyObject_getattr sim r ?n s1))" for s1 by (rule pres_getattr)
  show ?thesis
    unfolding HierarchyObject_id_def Let_def
    using a pres_trans [OF _ b]
    by (auto split: prod.splits sum.splits peek.splits)
qed

lemma pres_array_getitem: "pres s (snd (HierarchyArrayObject_getitem sim r i s))"
proof -
  let ?q = "native_query (ByIndex (p_handle (heap s ! r)) i) s"
  have a: "pres s ?q" by simp
  have c: "pres ?q (set_sub_handle r k c s2)" if "SimHandle sim h p ?q = (Inr c, s2)" for h p c s2 k
    using that by (rule pres_SimHandle_sub)
  have d: "pres ?q s2" if "SimHandle sim h p ?q = (Inl e, s2)" for h p e s2
    using SimHandle_error [OF that] by simp
  show ?thesis
    unfolding HierarchyArrayObject_getitem_def Let_def
    using a pres_trans [OF a c] pres_trans [OF a d]
    by (auto split: option.splits prod.splits sum.splits simp del: native_query_fields)
qed

lemma pres_getitem: "pres s (snd (NonHierarchyIndexableObject_getitem sim r i s))"
proof -
  let ?q = "native_query (ByIndex (p_handle (heap s ! r)) i) s"
  have a: "pres s ?q" by simp
  have c: "pres ?q (set_sub_handle r k c s2)" if "SimHandle sim h p ?q = (Inr c, s2)" for h p c s2 k
    using that by (rule pres_SimHandle_sub)
  have d: "pres ?q s2" if "SimHandle sim h p ?q = (Inl e, s2)" for h p e s2
    using SimHandle_error [OF that] by simp
  show ?thesis
    unfolding NonHierarchyIndexableObject_getitem_def Let_def
    using a pres_trans [OF a c] pres_trans [OF a d]
    by (auto split: option.splits prod.splits sum.splits simp del: native_query_fields)
qed

text \<open>The objects that the lookups return are objects of the heap.\<close>

lemma set_sub_handle_length [simp]: "length (heap (set_sub_handle r k c s)) = length (heap s)"
  by simp

lemma getattr_result:
  assumes "cache_inv s" "r < length (heap s)" "HierarchyObject_getattr sim r n s = (Inr (Child c), s')"
  shows "c < length (heap s')"
proof (cases "p_sub_handles (heap s ! r) (KName n)")
  case (Some c')
  with assms(3) have "c' = c" "s' = s" by (simp_all add: HierarchyObject_getattr_def)
  with cache_inv_sub [OF assms(1,2) Some] show ?thesis by simp
next
  case None
  let ?q = "native_query (ByName (p_handle (heap s ! r)) n) s"
  have ci: "cache_inv ?q" using assms(1) by simp
  from None assms(3) obtain h p s2 where
    sh: "SimHandle sim h p ?q = (Inr c, s2)" and s': "s' = set_sub_handle r (KName n) c s2"
    by (auto simp: HierarchyObject_getattr_def SimHandleBase_getattr_def Let_def
        split: if_splits option.splits prod.splits sum.splits simp del: native_query_fields set_sub_handle_fields)
  from SimHandle_result [OF ci sh] s' show ?thesis by simp
qed

lemma array_getitem_result:
  assumes "cache_inv s" "r < length (heap s)" "HierarchyArrayObject_getitem sim r i s = (Inr c, s')"
  shows "c < length (heap s')"
proof (cases "p_sub_handles (heap s ! r) (KIdx i)")
  case (Some c')
  with assms(3) have "c' = c" "s' = s" by (simp_all add: HierarchyArrayObject_getitem_def)
  with cache_inv_sub [OF assms(1,2) Some] show ?thesis by simp
next
  case None
  let ?q = "native_query (ByIndex (p_handle (heap s ! r)) i) s"
  have ci: "cache_inv ?q" using assms(1) by simp
  from None assms(3) obtain h p s2 where
    sh: "SimHandle sim h p ?q = (Inr c, s2)" and s': "s' = set_sub_handle r (KIdx i) c s2"
    by (auto simp: HierarchyArrayObject_getitem_def Let_def
        split: if_splits option.splits prod.splits sum.splits simp del: native_query_fields set_sub_handle_fields)
  from SimHandle_result [OF ci sh] s' show ?thesis by simp
qed

lemma getitem_result:
  assumes "cache_inv s" "r < length (heap s)" "NonHierarchyIndexableObject_getitem sim r i s = (Inr c, s')"
  shows "c < length (heap s')"
proof (cases "p_sub_handles (heap s ! r) (KIdx i)")
  case (Some c')
  with assms(3) have "c' = c" "s' = s"
    by (simp_all add: NonHierarchyIndexableObject_getitem_def split: option.splits)
  with cache_inv_sub [OF assms(1,2) Some] show ?thesis by simp
next
  case None
  let ?q = "native_query (ByIndex (p_handle (heap s ! r)) i) s"
  have ci: "cache_inv ?q" using assms(1) by simp
  from None assms(3) obtain h p s2 where
    sh: "SimHandle sim h p ?q = (Inr c, s2)" and s': "s' = set_sub_handle r (KIdx i) c s2"
    by (auto simp: NonHierarchyIndexableObject_getitem_def Let_def
        split: if_splits option.splits prod.splits sum.splits simp del: native_query_fields set_sub_handle_fields)
  from SimHandle_result [OF ci sh] s' show ?thesis by simp
qed

lemma pres_try_SimHandle: "pres s (snd (try_SimHandle sim r thing n s))"
proof (cases "child_path sim r n s")
  case (Pair pr s0)
  have a: "pres s s0" using pres_child_path [of s sim r n] Pair by simp
  show ?thesis
  proof (cases pr)
    case (Inl e)
    with Pair a show ?thesis by (simp add: try_SimHandle_def)
  next
    case (Inr path)
    have "pres s0 (snd (SimHandle sim thing (Some path) s0))" by (rule pres_SimHandle)
    with a have "pres s (snd (SimHandle sim thing (Some path) s0))" using pres_trans by blast
    with Pair Inr show ?thesis by (simp add: try_SimHandle_def)
  qed
qed

lemma try_SimHandle_cached:
  assumes "try_SimHandle sim r thing n s = (Inr hdl, s1)"
  shows "handle2obj s1 thing = Some hdl"
proof (cases "child_path sim r n s")
  case (Pair pr s0)
  show ?thesis
  proof (cases pr)
    case (Inl e)
    with Pair assms show ?thesis by (simp add: try_SimHandle_def)
  next
    case (Inr path)
    with Pair assms have "SimHandle sim thing (Some path) s0 = (Inr hdl, s1)"
      by (simp add: try_SimHandle_def)
    then show ?thesis by (cases rule: SimHandle_cases [of s0 thing sim "Some path"]) auto
  qed
qed

lemma pres_discover_loop: "pres s (snd (discover_loop sim r things s))"
proof (induction things arbitrary: s)
  case Nil
  show ?case by simp
next
  case (Cons thing things)
  let ?name = "get_name_string sim thing"
  obtain res s1 where t: "try_SimHandle sim r thing ?name s = (res, s1)"
    by (cases "try_SimHandle sim r thing ?name s")
  have b: "pres s s1" using pres_try_SimHandle [of s sim r thing ?name] t by simp
  show ?case
  proof (cases res)
    case (Inl e)
    show ?thesis
    proof (cases "is_TestError e")
      case True
      have "pres s1 (snd (discover_loop sim r things (log_msg DEBUG (Caught e) s1)))"
        using pres_trans [OF pres_simple(1) Cons.IH] .
      with b have "pres s (snd (discover_loop sim r things (log_msg DEBUG (Caught e) s1)))"
        using pres_trans by blast
      then show ?thesis using t Inl True by simp
    next
      case False
      with t Inl b show ?thesis by simp
    qed
  next
    case (Inr hdl)
    obtain kr s2 where k: "sub_handle_key sim r ?name s1 = (kr, s2)"
      by (cases "sub_handle_key sim r ?name s1")
    have c: "pres s1 s2" using pres_sub_handle_key [of s1 sim r ?name] k by simp
    have abc: "pres s s2" using b c pres_trans by blast
    have v: "cache_inv s2 \<Longrightarrow> hdl < length (heap s2)"
    proof -
      assume ci2: "cache_inv s2"
      have "handle2obj s1 thing = Some hdl"
        using t Inr try_SimHandle_cached by blast
      with c have "handle2obj s2 thing = Some hdl" by (simp add: pres_def grows_def)
      with cache_inv_cached [OF ci2] show ?thesis by blast
    qed
    show ?thesis
    proof (cases kr)
      case e: (Inl e)
      with t Inr k abc show ?thesis by simp
    next
      case kk: (Inr key)
      show ?thesis
      proof (cases key)
        case None
        have "pres s2 (snd (discover_loop sim r things (log_msg DEBUG (UnableToTranslate (p_name (heap s2 ! hdl))) s2)))"
          using pres_trans [OF pres_simple(1) Cons.IH] .
        with abc have "pres s (snd (discover_loop sim r things (log_msg DEBUG (UnableToTranslate (p_name (heap s2 ! hdl))) s2)))"
          using pres_trans by blast
        then show ?thesis using t Inr k kk None by simp
      next
        case (Some k')
        have "pres s2 (snd (discover_loop sim r things (set_sub_handle r k' hdl s2)))"
          using pres_trans [OF pres_set_sub_handle [OF v] Cons.IH] by simp
        with abc have "pres s (snd (discover_loop sim r things (set_sub_handle r k' hdl s2)))"
          using pres_trans by blast
        then show ?thesis using t Inr k kk Some by simp
      qed
    qed
  qed
qed

lemma pres_discover_all: "pres s (snd (RegionObject_discover_all sim r s))"
proof -
  have u: "pres s1 (update_obj r (\<lambda>self. self\<lparr>p_discovered := True\<rparr>) s1)" for s1
    by (rule pres_update_obj) (simp_all add: same_identity_def)
  let ?s1 = "log_msg DEBUG (DiscoveringAllOn (p_name (heap s ! r))) s"
  obtain res s2 where l: "discover_loop sim r (iterate_objects sim (p_handle (heap s ! r))) ?s1 = (res, s2)"
    by (cases "discover_loop sim r (iterate_objects sim (p_handle (heap s ! r))) ?s1")
  have "pres ?s1 s2"
    using pres_discover_loop [of ?s1 sim r "iterate_objects sim (p_handle (heap s ! r))"] l by simp
  then have a: "pres s s2" using pres_trans [OF pres_simple(1)] by blast
  have b: "pres s (update_obj r (\<lambda>self. self\<lparr>p_discovered := True\<rparr>) s2)"
    using pres_trans [OF a u] .
  show ?thesis
    using a b l by (cases res) (simp_all add: RegionObject_discover_all_def Let_def)
qed

lemma pres_get_value:
  "pres s (snd (get_value sim d r s))"
  "pres s (snd (get_values sim d r is s))"
proof (induction sim d r s and sim d r "is" s rule: get_value_get_values.induct)
  case (1 sim r s)
  show ?case by simp
next
  case (2 sim d r s)
  show ?case
  proof (cases "p_cls (heap s ! r)")
    case HierarchyObject
    then show ?thesis
      using pres_getattr [of s sim r "''value''"]
      by (auto split: prod.splits sum.splits lookup.splits)
  next
    case NonHierarchyIndexableObject
    show ?thesis
    proof (cases "p_range (heap s ! r)")
      case None
      with NonHierarchyIndexableObject show ?thesis by simp
    next
      case (Some lr)
      obtain left right where lr: "lr = (left, right)" by (cases lr)
      from "2.IH" [OF NonHierarchyIndexableObject Some lr [symmetric]]
      show ?thesis using NonHierarchyIndexableObject Some lr
        by (auto split: prod.splits sum.splits)
    qed
  qed (simp_all add: Let_def split: option.splits)
next
  case (3 sim d r s)
  show ?case by simp
next
  case (4 sim d r i "is" s)
  show ?case
  proof (cases "NonHierarchyIndexableObject_getitem sim r i s")
    case (Pair res s1)
    have a: "pres s s1" using pres_getitem [of s sim r i] Pair by simp
    show ?thesis
    proof (cases res)
      case (Inl e)
      with Pair a show ?thesis by simp
    next
      case (Inr c)
      show ?thesis
      proof (cases "get_value sim d c s1")
        case p2: (Pair res2 s2)
        have b: "pres s1 s2" using "4.IH"(1) [OF Pair [symmetric] Inr] p2 by simp
        show ?thesis
        proof (cases res2)
          case l2: (Inl e)
          with Pair Inr p2 a b show ?thesis using pres_trans by auto
        next
          case r2: (Inr v)
          have c: "pres s2 (snd (get_values sim d r is s2))"
            using "4.IH"(2) [OF Pair [symmetric] Inr p2 [symmetric] r2] .
          have "pres s (snd (get_values sim d r is s2))"
            using a b c pres_trans by blast
          with Pair Inr p2 r2 show ?thesis
            by (auto split: prod.splits sum.splits)
        qed
      qed
    qed
  qed
qed


lemma pres_set_value:
  "pres s (snd (set_value sim d r v s))"
  "pres s (snd (set_values sim d r is vs s))"
proof (induction sim d r v s and sim d r "is" vs s rule: set_value_set_values.induct)
  case (1 sim r v s)
  show ?case by simp
next
  case (2 sim d r v s)
  show ?case
  proof (cases "p_cls (heap s ! r)")
    case HierarchyObject
    show ?thesis
    proof (cases "HierarchyObject_hasattr sim r ''value'' s")
      case (Pair res s1)
      have a: "pres s s1" using pres_hasattr [of s sim r "''value''"] Pair by simp
      show ?thesis
      proof (cases "\<exists>pk. res = Inr pk \<and> pk \<noteq> PeekNone")
        case False
        with HierarchyObject Pair a show ?thesis
          by (cases res; cases "projr res") auto
      next
        case True
        then obtain pk where pk: "res = Inr pk" "pk \<noteq> PeekNone" by blast
        show ?thesis
        proof (cases "HierarchyObject_getattr sim r ''value'' s1")
          case p2: (Pair res2 s2)
          have b: "pres s1 s2" using pres_getattr [of s1 sim r "''value''"] p2 by simp
          have ab: "pres s s2" using a b by (rule pres_trans)
          show ?thesis
          proof (cases "\<exists>sub. res2 = Inr (Child sub)")
            case False
            with HierarchyObject Pair pk p2 ab show ?thesis
              by (cases res2; cases "projr res2"; cases pk) auto
          next
            case True
            then obtain sub where sub: "res2 = Inr (Child sub)" by blast
            have "pres s2 (snd (set_value sim d sub v s2))"
            proof (cases pk)
              case (PeekObject x)
              show ?thesis
                using "2.IH"(1) [OF HierarchyObject Pair [symmetric] pk(1) PeekObject p2 [symmetric] sub refl] .
            next
              case PeekNone
              with pk show ?thesis by simp
            next
              case (PeekHandle x)
              show ?thesis
                using "2.IH"(2) [OF HierarchyObject Pair [symmetric] pk(1) PeekHandle p2 [symmetric] sub refl] .
            qed
            with ab have "pres s (snd (set_value sim d sub v s2))" by (rule pres_trans)
            with HierarchyObject Pair pk p2 sub show ?thesis
              by (cases pk) auto
          qed
        qed
      qed
    qed
  next
    case HierarchyArrayObject
    have "pres s (update_obj r (\<lambda>self. self\<lparr>p_dict_value := Some v\<rparr>) s)"
      by (rule pres_update_obj) (simp_all add: same_identity_def)
    with HierarchyArrayObject show ?thesis by simp
  next
    case NonHierarchyIndexableObject
    show ?thesis
    proof (cases v)
      case (VList xs)
      obtain n s1 where l: "SimHandleBase_len sim r s = (n, s1)" by (cases "SimHandleBase_len sim r s")
      have a: "pres s s1" using pres_len [of s sim r] l by simp
      show ?thesis
      proof (cases "length xs \<noteq> n")
        case True
        with NonHierarchyIndexableObject VList l a show ?thesis by simp
      next
        case False
        show ?thesis
        proof (cases "p_range (heap s1 ! r)")
          case None
          with NonHierarchyIndexableObject VList l a False show ?thesis by simp
        next
          case (Some lr)
          obtain left right where lr: "lr = (left, right)" by (cases lr)
          have "pres s1 (snd (set_values sim d r (range_iter left right) xs s1))"
            using "2.IH"(3) [OF NonHierarchyIndexableObject VList refl l [symmetric] False Some lr [symmetric]] .
          with a have "pres s (snd (set_values sim d r (range_iter left right) xs s1))" by (rule pres_trans)
          with NonHierarchyIndexableObject VList l False Some lr show ?thesis by simp
        qed
      qed
    qed (simp_all add: NonHierarchyIndexableObject)
  qed simp_all
next
  case (3 sim d r vs s)
  show ?case by simp
next
  case (4 sim d r i "is" s)
  show ?case by simp
next
  case (5 sim d r i "is" v vs s)
  show ?case
  proof (cases "NonHierarchyIndexableObject_getitem sim r i s")
    case (Pair res s1)
    have a: "pres s s1" using pres_getitem [of s sim r i] Pair by simp
    show ?thesis
    proof (cases res)
      case (Inl e)
      with Pair a show ?thesis by simp
    next
      case (Inr c)
      show ?thesis
      proof (cases "set_value sim d c v s1")
        case p2: (Pair res2 s2)
        have b: "pres s1 s2" using "5.IH"(1) [OF Pair [symmetric] Inr] p2 by simp
        show ?thesis
        proof (cases res2)
          case l2: (Inl e)
          with Pair Inr p2 a b show ?thesis using pres_trans by auto
        next
          case r2: (Inr u)
          have c: "pres s2 (snd (set_values sim d r is vs s2))"
            using "5.IH"(2) [OF Pair [symmetric] Inr p2 [symmetric] r2] .
          have "pres s (snd (set_values sim d r is vs s2))"
            using a b c pres_trans by blast
          with Pair Inr p2 r2 show ?thesis by simp
        qed
      qed
    qed
  qed
qed


lemma pres_check_for_set_action: "pres s (snd (check_for_set_action sim d r v s))"
  using pres_get_value(1) [of s sim d r]
  by (auto simp: check_for_set_action_def as_gpi_args_for_def split: pyval.splits prod.splits sum.splits)

lemma pres_Modifiable_set: "pres s (snd (ModifiableObject_setimmediatevalue sim d r v s))"
proof (cases "check_for_set_action sim d r v s")
  case (Pair res s1)
  have a: "pres s s1" using pres_check_for_set_action [of s sim d r v] Pair by simp
  have l: "pres s1 (snd (SimHandleBase_len sim r s1))" by (rule pres_len)
  have w: "pres s1 (send_write x (snd (SimHandleBase_len sim r s1)))" for x
    using pres_trans [OF l pres_simple(3)] .
  have m: "pres s1 (log_msg lv x (snd (SimHandleBase_len sim r s1)))" for lv x
    using pres_trans [OF l pres_simple(1)] .
  have "pres s1 (snd (ModifiableObject_setimmediatevalue sim d r v s))"
    using Pair l w m
    by (auto simp: ModifiableObject_setimmediatevalue_def Let_def split_beta
        split: sum.splits pyval.splits)
  with a show ?thesis by (rule pres_trans)
qed

lemma pres_Real_set: "pres s (snd (RealObject_setimmediatevalue sim d r v s))"
proof (cases "check_for_set_action sim d r v s")
  case (Pair res s1)
  have a: "pres s s1" using pres_check_for_set_action [of s sim d r v] Pair by simp
  have "pres s1 (snd (RealObject_setimmediatevalue sim d r v s))"
    using Pair
    by (auto simp: RealObject_setimmediatevalue_def split: sum.splits error.splits)
  with a show ?thesis by (rule pres_trans)
qed

lemma pres_Integer_set: "pres s (snd (IntegerObject_setimmediatevalue sim d r v s))"
proof (cases "check_for_set_action sim d r v s")
  case (Pair res s1)
  have a: "pres s s1" using pres_check_for_set_action [of s sim d r v] Pair by simp
  have "pres s1 (snd (IntegerObject_setimmediatevalue sim d r v s))"
    using Pair
    by (auto simp: IntegerObject_setimmediatevalue_def split: sum.splits pyval.splits)
  with a show ?thesis by (rule pres_trans)
qed

lemma pres_String_set: "pres s (snd (StringObject_setimmediatevalue sim d r v s))"
proof (cases "check_for_set_action sim d r v s")
  case (Pair res s1)
  have a: "pres s s1" using pres_check_for_set_action [of s sim d r v] Pair by simp
  have "pres s1 (snd (StringObject_setimmediatevalue sim d r v s))"
    using Pair
    by (auto simp: StringObject_setimmediatevalue_def split: sum.splits pyval.splits)
  with a show ?thesis by (rule pres_trans)
qed

lemma pres_setimmediatevalue: "pres s (snd (setimmediatevalue sim d r v s))"
  using pres_getattr [of s sim r "''setimmediatevalue''"] pres_Modifiable_set pres_Real_set
    pres_Integer_set pres_String_set
  by (auto simp: setimmediatevalue_def split: cls.splits prod.splits sum.splits)

lemma pres_le: "pres s (snd (NonHierarchyObject_le sim d r v s))"
  using pres_set_value(1) [of s sim d r v]
  by (auto simp: NonHierarchyObject_le_def split: prod.splits sum.splits)

subsection \<open>One object for each handle\<close>

lemma step_pres: "step s s' \<Longrightarrow> pres s s'"
proof (induction rule: step.induct)
  case (resolve s sim h p)
  show ?case by (rule pres_SimHandle)
next
  case (getattr r s sim n)
  show ?case by (rule pres_getattr)
next
  case (hasattr r s sim n)
  show ?case by (rule pres_hasattr)
next
  case (id r s sim n)
  show ?case by (rule pres_id)
next
  case (discover r s sim)
  show ?case by (rule pres_discover_all)
next
  case (array_getitem r s sim i)
  show ?case by (rule pres_array_getitem)
next
  case (getitem r s sim i)
  show ?case by (rule pres_getitem)
next
  case (len r s sim)
  show ?case by (rule pres_len)
next
  case (get r s sim d)
  show ?case by (rule pres_get_value(1))
next
  case (set r s sim d v)
  show ?case by (rule pres_set_value(1))
next
  case (le r s sim d v)
  show ?case by (rule pres_le)
next
  case (setimmediate r s sim d v)
  show ?case by (rule pres_setimmediatevalue)
qed

lemma steps_pres: "step\<^sup>*\<^sup>* s s' \<Longrightarrow> pres s s'"
  by (induction rule: rtranclp_induct) (auto intro: pres_trans step_pres)

lemma cache_inv_empty: "cache_inv s_empty"
  by (simp add: cache_inv_def s_empty_def)

lemma reachable_cache_inv: "step\<^sup>*\<^sup>* s_empty s \<Longrightarrow> cache_inv s"
  using steps_pres [of s_empty s] cache_inv_empty by (simp add: pres_def)

lemma one_object_per_handle:
  assumes "cache_inv s" "a < length (heap s)" "b < length (heap s)"
  shows "SimHandleBase_eq (heap s ! a) (heap s ! b) \<longleftrightarrow> a = b"
proof
  assume "SimHandleBase_eq (heap s ! a) (heap s ! b)"
  then have e: "p_handle (heap s ! a) = p_handle (heap s ! b)" by (simp add: SimHandleBase_eq_def)
  have "Some a = handle2obj s (p_handle (heap s ! a))"
    by (rule cache_inv_registered [OF assms(1,2), symmetric])
  also have "\<dots> = handle2obj s (p_handle (heap s ! b))" by (simp only: e)
  also have "\<dots> = Some b" by (rule cache_inv_registered [OF assms(1,3)])
  finally show "a = b" by simp
next
  assume "a = b"
  then show "SimHandleBase_eq (heap s ! a) (heap s ! b)" by (simp add: SimHandleBase_eq_def)
qed

lemma canonical:
  assumes "cache_inv s3" "handle2obj s3 h = Some obj" "c < length (heap s3)" "p_handle (heap s3 ! c) = h"
  shows "c = obj"
proof -
  have "Some c = handle2obj s3 (p_handle (heap s3 ! c))"
    by (rule cache_inv_registered [OF assms(1,3), symmetric])
  also have "\<dots> = handle2obj s3 h" by (simp only: assms(4))
  also have "\<dots> = Some obj" by (rule assms(2))
  finally show ?thesis by simp
qed

text \<open>
  Claim C1. In a process that started with an empty identity cache and made any calls
  of the module's operations, once \<^verbatim>\<open>SimHandle(h, path)\<close> has returned an object, then
  after any further calls: \<^verbatim>\<open>SimHandle(h, path')\<close> returns that same object for every
  path and leaves the state as it is; an object with handle \<open>h\<close> that \<^verbatim>\<open>__getattr__\<close>
  or \<^verbatim>\<open>__getitem__\<close> returns, or that discovery has put into \<^verbatim>\<open>_sub_handles\<close>, is that
  same object; and two objects of the heap compare equal exactly when their handles
  are equal, which is exactly when they are one object.
\<close>

theorem one_proxy_per_handle:
  assumes "step\<^sup>*\<^sup>* s_empty s" and "SimHandle sim h p s = (Inr obj, s1)" and "step\<^sup>*\<^sup>* s1 s2"
  shows "SimHandle sim' h p' s2 = (Inr obj, s2)
    \<and> (\<forall>scope n c s3. scope < length (heap s2) \<longrightarrow>
          HierarchyObject_getattr sim' scope n s2 = (Inr (Child c), s3) \<longrightarrow>
          p_handle (heap s3 ! c) = h \<longrightarrow> c = obj)
    \<and> (\<forall>arr i c s3. arr < length (heap s2) \<longrightarrow>
          (HierarchyArrayObject_getitem sim' arr i s2 = (Inr c, s3)
           \<or> NonHierarchyIndexableObject_getitem sim' arr i s2 = (Inr c, s3)) \<longrightarrow>
          p_handle (heap s3 ! c) = h \<longrightarrow> c = obj)
    \<and> (\<forall>scope k c s3. scope < length (heap s2) \<longrightarrow> s3 = snd (RegionObject_discover_all sim' scope s2) \<longrightarrow>
          p_sub_handles (heap s3 ! scope) k = Some c \<longrightarrow> p_handle (heap s3 ! c) = h \<longrightarrow> c = obj)
    \<and> (\<forall>a b. a < length (heap s2) \<longrightarrow> b < length (heap s2) \<longrightarrow>
          (SimHandleBase_eq (heap s2 ! a) (heap s2 ! b) \<longleftrightarrow> p_handle (heap s2 ! a) = p_handle (heap s2 ! b))
          \<and> (SimHandleBase_eq (heap s2 ! a) (heap s2 ! b) \<longleftrightarrow> a = b))"
proof -
  have ci: "cache_inv s" by (rule reachable_cache_inv [OF assms(1)])
  have p1: "pres s s1" using pres_SimHandle [of s sim h p] assms(2) by simp
  have ci1: "cache_inv s1" using p1 ci by (simp add: pres_def)
  have p2: "pres s1 s2" by (rule steps_pres [OF assms(3)])
  have ci2: "cache_inv s2" using p2 ci1 by (simp add: pres_def)
  have "handle2obj s1 h = Some obj" using SimHandle_result [OF ci assms(2)] by simp
  then have h2: "handle2obj s2 h = Some obj" using p2 by (simp add: pres_def grows_def)
  have later: "handle2obj s3 h = Some obj \<and> cache_inv s3 \<and> length (heap s2) \<le> length (heap s3)"
    if "pres s2 s3" for s3
    using that h2 ci2 by (simp add: pres_def grows_def)
  have A: "SimHandle sim' h p' s2 = (Inr obj, s2)" by (rule SimHandle_cached [OF h2])
  have B: "c = obj" if "scope < length (heap s2)"
      "HierarchyObject_getattr sim' scope n s2 = (Inr (Child c), s3)" "p_handle (heap s3 ! c) = h"
    for scope n c s3
  proof -
    have "pres s2 s3" using pres_getattr [of s2 sim' scope n] that(2) by simp
    from later [OF this] getattr_result [OF ci2 that(1,2)] that(3) show ?thesis
      using canonical by blast
  qed
  have C: "c = obj" if "arr < length (heap s2)"
      "HierarchyArrayObject_getitem sim' arr i s2 = (Inr c, s3)
       \<or> NonHierarchyIndexableObject_getitem sim' arr i s2 = (Inr c, s3)" "p_handle (heap s3 ! c) = h"
    for arr i c s3
  proof -
    have "pres s2 s3 \<and> c < length (heap s3)"
      using that(2) pres_array_getitem [of s2 sim' arr i] pres_getitem [of s2 sim' arr i]
        array_getitem_result [OF ci2 that(1)] getitem_result [OF ci2 that(1)]
      by auto
    with later [of s3] that(3) show ?thesis using canonical by blast
  qed
  have D: "c = obj" if "scope < length (heap s2)" "s3 = snd (RegionObject_discover_all sim' scope s2)"
      "p_sub_handles (heap s3 ! scope) k = Some c" "p_handle (heap s3 ! c) = h"
    for scope k c s3
  proof -
    have "pres s2 s3" using pres_discover_all [of s2 sim' scope] that(2) by simp
    from later [OF this] have l: "handle2obj s3 h = Some obj" "cache_inv s3" "scope < length (heap s3)"
      using that(1) by simp_all
    from cache_inv_sub [OF l(2,3) that(3)] l that(4) show ?thesis using canonical by blast
  qed
  have E: "(SimHandleBase_eq (heap s2 ! a) (heap s2 ! b) \<longleftrightarrow> p_handle (heap s2 ! a) = p_handle (heap s2 ! b))
      \<and> (SimHandleBase_eq (heap s2 ! a) (heap s2 ! b) \<longleftrightarrow> a = b)"
    if "a < length (heap s2)" "b < length (heap s2)" for a b
    using one_object_per_handle [OF ci2 that] by (simp add: SimHandleBase_eq_def)
  show ?thesis
    using A B C D E by blast
qed


lemma s_top_data:
  "s_top_data = \<lparr>heap = [construct dut HierarchyObject 1 None, construct dut ModifiableObject 3 (Some ''top.data'')],
      handle2obj = [1 \<mapsto> 0, 3 \<mapsto> 1],
      deprecation_warned = {}, native_queries = [], native_writes = [], pending_writes = [],
      log = [(DEBUG, Created), (DEBUG, Created)]\<rparr>"
  by (simp add: s_top_data_def resolved_top SimHandle_def register_def type2cls_def log_msg_def dut_simps)

lemma s_top_data_resolve: "SimHandle dut 3 (Some ''top.data'') (resolved 1) = (Inr 1, s_top_data)"
proof (rule prod_eqI)
  show "fst (SimHandle dut 3 (Some ''top.data'') (resolved 1)) = fst (Inr 1, s_top_data)"
    by (simp add: resolved_top SimHandle_def register_def type2cls_def dut_simps)
  show "snd (SimHandle dut 3 (Some ''top.data'') (resolved 1)) = snd (Inr 1, s_top_data)"
    by (simp add: s_top_data_def)
qed

lemma s_top_data_getattr:
  "fst (HierarchyObject_getattr dut 0 ''data'' s_top_data) = Inr (Child 1)"
  "p_handle (heap (snd (HierarchyObject_getattr dut 0 ''data'' s_top_data)) ! 1) = 3"
  by (simp_all add: HierarchyObject_getattr_def s_top_data SimHandle_def startswith_underscore_def
      object_defs dut_simps)

theorem one_proxy_per_handle_witness:
  "step\<^sup>*\<^sup>* s_empty (resolved 1)
   \<and> SimHandle dut 3 (Some ''top.data'') (resolved 1) = (Inr 1, s_top_data)
   \<and> step\<^sup>*\<^sup>* s_top_data s_top_data
   \<and> SimHandle dut 3 None s_top_data = (Inr 1, s_top_data)
   \<and> fst (HierarchyObject_getattr dut 0 ''data'' s_top_data) = Inr (Child 1)
   \<and> p_handle (heap (snd (HierarchyObject_getattr dut 0 ''data'' s_top_data)) ! 1) = 3
   \<and> SimHandleBase_eq (heap s_top_data ! 1) (heap s_top_data ! 1)
   \<and> \<not> SimHandleBase_eq (heap s_top_data ! 0) (heap s_top_data ! 1)"
proof -
  have r: "step\<^sup>*\<^sup>* s_empty (resolved 1)"
    unfolding resolved_def by (rule r_into_rtranclp) (rule step.resolve)
  have l: "(0::nat) < length (heap s_top_data)" "(1::nat) < length (heap s_top_data)"
    by (simp_all add: s_top_data)
  note T = one_proxy_per_handle [OF r s_top_data_resolve rtranclp.rtrancl_refl, of dut None]
  note E = T [THEN conjunct2, THEN conjunct2, THEN conjunct2, THEN conjunct2, rule_format]
  have a: "SimHandle dut 3 None s_top_data = (Inr 1, s_top_data)" by (rule T [THEN conjunct1])
  have b: "SimHandleBase_eq (heap s_top_data ! 1) (heap s_top_data ! 1)"
    using E [OF l(2) l(2), THEN conjunct2] by simp
  have c: "\<not> SimHandleBase_eq (heap s_top_data ! 0) (heap s_top_data ! 1)"
    using E [OF l(1) l(2), THEN conjunct2] by simp
  show ?thesis
    by (intro conjI r s_top_data_resolve rtranclp.rtrancl_refl a s_top_data_getattr b c)
qed

subsection \<open>Handles of a type without a class\<close>

lemma child_path_hier:
  "p_cls (heap s ! r) = HierarchyObject \<Longrightarrow>
     child_path sim r n s = (Inr (p_path (heap s ! r) @ ''.'' @ n), s)"
  by (simp add: child_path_def)

lemma sub_handle_key_hier:
  "p_cls (heap s ! r) = HierarchyObject \<Longrightarrow>
     sub_handle_key sim r n s = (Inr (Some (KName (last_segment n))), s)"
  by (simp add: sub_handle_key_def)

lemma grows_identity: "grows s s' \<Longrightarrow> r < length (heap s) \<Longrightarrow> same_identity (heap s ! r) (heap s' ! r)"
  by (simp add: grows_def)

lemma grows_log: "grows s s' \<Longrightarrow> x \<in> set (log s) \<Longrightarrow> x \<in> set (log s')"
  by (auto simp: grows_def)

lemma grows_cached: "grows s s' \<Longrightarrow> handle2obj s h \<noteq> None \<Longrightarrow> handle2obj s' h \<noteq> None"
  by (auto simp: grows_def)

lemma grows_length: "grows s s' \<Longrightarrow> r < length (heap s) \<Longrightarrow> r < length (heap s')"
  by (simp add: grows_def)

lemma grows_key:
  "grows s s' \<Longrightarrow> r < length (heap s) \<Longrightarrow> p_sub_handles (heap s ! r) k \<noteq> None
     \<Longrightarrow> p_sub_handles (heap s' ! r) k \<noteq> None"
  by (simp add: grows_def same_identity_def)

lemma grows_hier:
  assumes "grows s s'" "r < length (heap s)" "p_cls (heap s ! r) = HierarchyObject"
  shows "r < length (heap s')" "p_cls (heap s' ! r) = HierarchyObject"
    "p_path (heap s' ! r) = p_path (heap s ! r)"
  using grows_length [OF assms(1,2)] grows_identity [OF assms(1,2)] assms(3)
  by (simp_all add: same_identity_def)

lemma resolvable_same:
  "handle2obj s' h = handle2obj s h \<Longrightarrow> resolvable sim s' h = resolvable sim s h"
  by (simp add: resolvable_def)

lemma SimHandle_other:
  "h' \<noteq> h \<Longrightarrow> handle2obj (snd (SimHandle sim h p s)) h' = handle2obj s h'"
  by (cases rule: SimHandle_cases [of s h sim p]) simp_all

lemma SimHandle_resolvable:
  assumes "resolvable sim s h"
  shows "\<exists>c. fst (SimHandle sim h p s) = Inr c \<and> handle2obj (snd (SimHandle sim h p s)) h = Some c"
  using assms by (cases rule: SimHandle_cases [of s h sim p]) simp_all

text \<open>One turn of the discovery loop on a \<^verbatim>\<open>HierarchyObject\<close>.\<close>

lemma discover_loop_step:
  fixes sim r thing s
  defines "name \<equiv> get_name_string sim thing"
  defines "path \<equiv> p_path (heap s ! r) @ ''.'' @ get_name_string sim thing"
  assumes r: "r < length (heap s)" and hc: "p_cls (heap s ! r) = HierarchyObject"
  obtains s1 where
    "\<And>things. discover_loop sim r (thing # things) s = discover_loop sim r things s1"
    "grows s s1"
    "\<And>h. h \<noteq> thing \<Longrightarrow> handle2obj s1 h = handle2obj s h"
    "\<not> resolvable sim s thing \<Longrightarrow>
       handle2obj s1 thing = None \<and> (DEBUG, Caught (TestError (get_type sim thing) (Some path))) \<in> set (log s1)"
    "resolvable sim s thing \<Longrightarrow>
       handle2obj s1 thing \<noteq> None \<and> p_sub_handles (heap s1 ! r) (KName (last_segment name)) \<noteq> None"
proof -
  have cp: "try_SimHandle sim r thing name s = SimHandle sim thing (Some path) s"
    unfolding path_def name_def by (simp add: try_SimHandle_def child_path_hier [OF hc])
  show thesis
  proof (cases "resolvable sim s thing")
    case False
    then have f: "SimHandle sim thing (Some path) s = (Inl (TestError (get_type sim thing) (Some path)), s)"
      using SimHandle_fails by blast
    let ?s1 = "log_msg DEBUG (Caught (TestError (get_type sim thing) (Some path))) s"
    have n: "handle2obj s thing = None" using False by (simp add: resolvable_def)
    show ?thesis
    proof (rule that [of ?s1])
      show "discover_loop sim r (thing # things) s = discover_loop sim r things ?s1" for things
        using cp f by (simp add: name_def [symmetric] is_TestError_def)
      show "grows s ?s1" by (rule grows_log_msg)
      show "handle2obj ?s1 h = handle2obj s h" for h by simp
      show "handle2obj ?s1 thing = None \<and>
          (DEBUG, Caught (TestError (get_type sim thing) (Some path))) \<in> set (log ?s1)"
        using n by simp
      show "resolvable sim s thing \<Longrightarrow>
          handle2obj ?s1 thing \<noteq> None \<and> p_sub_handles (heap ?s1 ! r) (KName (last_segment name)) \<noteq> None"
        using False by simp
    qed
  next
    case True
    define sa where "sa = snd (SimHandle sim thing (Some path) s)"
    from SimHandle_resolvable [of sim s thing "Some path"] True
    obtain hdl where hdl0: "fst (SimHandle sim thing (Some path) s) = Inr hdl" "handle2obj sa thing = Some hdl"
      unfolding sa_def by blast
    have hdl: "SimHandle sim thing (Some path) s = (Inr hdl, sa)"
      using hdl0 by (simp add: sa_def prod_eq_iff)
    have ga: "grows s sa" using SimHandle_grows [of s sim thing "Some path"] by (simp add: sa_def)
    note ra = grows_hier [OF ga r hc]
    have k: "sub_handle_key sim r name sa = (Inr (Some (KName (last_segment name))), sa)"
      by (rule sub_handle_key_hier [OF ra(2)])
    let ?s1 = "set_sub_handle r (KName (last_segment name)) hdl sa"
    show ?thesis
    proof (rule that [of ?s1])
      show "discover_loop sim r (thing # things) s = discover_loop sim r things ?s1" for things
        using cp hdl k by (simp add: name_def [symmetric] del: set_sub_handle_fields)
      show "grows s ?s1" using grows_trans [OF ga grows_set_sub_handle] .
      show "handle2obj ?s1 h = handle2obj s h" if "h \<noteq> thing" for h
        using SimHandle_other [OF that, of sim "Some path" s] by (simp add: sa_def)
      show "\<not> resolvable sim s thing \<Longrightarrow> handle2obj ?s1 thing = None \<and>
          (DEBUG, Caught (TestError (get_type sim thing) (Some path))) \<in> set (log ?s1)"
        using True by simp
      show "handle2obj ?s1 thing \<noteq> None \<and> p_sub_handles (heap ?s1 ! r) (KName (last_segment name)) \<noteq> None"
        using hdl0(2) ra(1) by simp
    qed
  qed
qed

lemma discover_loop_grows: "grows s (snd (discover_loop sim r things s))"
  using pres_discover_loop [of s sim r things] by (simp add: pres_def)

lemma discover_loop_completes:
  assumes "r < length (heap s)" "p_cls (heap s ! r) = HierarchyObject"
  shows "fst (discover_loop sim r things s) = Inr ()"
  using assms
proof (induction things arbitrary: s)
  case Nil
  show ?case by simp
next
  case (Cons thing things)
  obtain s1 where s1: "\<And>ts. discover_loop sim r (thing # ts) s = discover_loop sim r ts s1"
    "grows s s1"
    by (rule discover_loop_step [OF Cons.prems, of sim thing]) blast
  note r1 = grows_hier [OF s1(2) Cons.prems]
  from Cons.IH [OF r1(1,2)] show ?case by (simp only: s1(1))
qed

lemma discover_loop_unknown:
  assumes "\<not> resolvable sim s h" "r < length (heap s)" "p_cls (heap s ! r) = HierarchyObject"
  shows "handle2obj (snd (discover_loop sim r things s)) h = None"
  using assms
proof (induction things arbitrary: s)
  case Nil
  then show ?case by (simp add: resolvable_def)
next
  case (Cons thing things)
  obtain s1 where s1: "\<And>ts. discover_loop sim r (thing # ts) s = discover_loop sim r ts s1"
    "grows s s1"
    "\<And>k. k \<noteq> thing \<Longrightarrow> handle2obj s1 k = handle2obj s k"
    "\<not> resolvable sim s thing \<Longrightarrow> handle2obj s1 thing = None \<and>
       (DEBUG, Caught (TestError (get_type sim thing)
          (Some (p_path (heap s ! r) @ ''.'' @ get_name_string sim thing)))) \<in> set (log s1)"
    by (rule discover_loop_step [OF Cons.prems(2,3), of sim thing]) blast
  note r1 = grows_hier [OF s1(2) Cons.prems(2,3)]
  have n: "handle2obj s h = None" using Cons.prems(1) by (simp add: resolvable_def)
  have "handle2obj s1 h = handle2obj s h"
  proof (cases "h = thing")
    case True
    with s1(4) Cons.prems(1) n show ?thesis by simp
  next
    case False
    with s1(3) show ?thesis by simp
  qed
  then have "\<not> resolvable sim s1 h" using Cons.prems(1) resolvable_same by blast
  from Cons.IH [OF this r1(1,2)] show ?case by (simp only: s1(1))
qed

lemma discover_loop_logged:
  assumes "h \<in> set things" "\<not> resolvable sim s h" "r < length (heap s)" "p_cls (heap s ! r) = HierarchyObject"
  shows "(DEBUG, Caught (TestError (get_type sim h)
            (Some (p_path (heap s ! r) @ ''.'' @ get_name_string sim h))))
         \<in> set (log (snd (discover_loop sim r things s)))"
  using assms
proof (induction things arbitrary: s)
  case Nil
  then show ?case by simp
next
  case (Cons thing things)
  obtain s1 where s1: "\<And>ts. discover_loop sim r (thing # ts) s = discover_loop sim r ts s1"
    "grows s s1"
    "\<And>k. k \<noteq> thing \<Longrightarrow> handle2obj s1 k = handle2obj s k"
    "\<not> resolvable sim s thing \<Longrightarrow> handle2obj s1 thing = None \<and>
       (DEBUG, Caught (TestError (get_type sim thing)
          (Some (p_path (heap s ! r) @ ''.'' @ get_name_string sim thing)))) \<in> set (log s1)"
    by (rule discover_loop_step [OF Cons.prems(3,4), of sim thing]) blast
  note r1 = grows_hier [OF s1(2) Cons.prems(3,4)]
  show ?case
  proof (cases "h = thing")
    case True
    with s1(4) Cons.prems(2)
    have "(DEBUG, Caught (TestError (get_type sim h)
            (Some (p_path (heap s ! r) @ ''.'' @ get_name_string sim h)))) \<in> set (log s1)"
      by simp
    from grows_log [OF discover_loop_grows this] show ?thesis by (simp only: s1(1))
  next
    case False
    with Cons.prems(1) have m: "h \<in> set things" by simp
    have "handle2obj s1 h = handle2obj s h" using s1(3) False by simp
    then have u: "\<not> resolvable sim s1 h" using Cons.prems(2) resolvable_same by blast
    from Cons.IH [OF m u r1(1,2)] show ?thesis by (simp only: s1(1) r1(3))
  qed
qed

lemma discover_loop_resolved:
  assumes "thing \<in> set things" "resolvable sim s thing" "r < length (heap s)"
    "p_cls (heap s ! r) = HierarchyObject"
  shows "handle2obj (snd (discover_loop sim r things s)) thing \<noteq> None
       \<and> p_sub_handles (heap (snd (discover_loop sim r things s)) ! r)
              (KName (last_segment (get_name_string sim thing))) \<noteq> None"
  using assms
proof (induction things arbitrary: s)
  case Nil
  then show ?case by simp
next
  case (Cons t things)
  obtain s1 where s1: "\<And>ts. discover_loop sim r (t # ts) s = discover_loop sim r ts s1"
    "grows s s1"
    "\<And>k. k \<noteq> t \<Longrightarrow> handle2obj s1 k = handle2obj s k"
    "resolvable sim s t \<Longrightarrow> handle2obj s1 t \<noteq> None
       \<and> p_sub_handles (heap s1 ! r) (KName (last_segment (get_name_string sim t))) \<noteq> None"
    by (rule discover_loop_step [OF Cons.prems(3,4), of sim t]) blast
  note r1 = grows_hier [OF s1(2) Cons.prems(3,4)]
  have g: "grows s1 (snd (discover_loop sim r things s1))" by (rule discover_loop_grows)
  show ?case
  proof (cases "thing = t")
    case True
    have a: "handle2obj (snd (discover_loop sim r things s1)) thing \<noteq> None"
      using grows_cached [OF g] s1(4) Cons.prems(2) True by simp
    have b: "p_sub_handles (heap (snd (discover_loop sim r things s1)) ! r)
              (KName (last_segment (get_name_string sim thing))) \<noteq> None"
      using grows_key [OF g r1(1)] s1(4) Cons.prems(2) True by simp
    show ?thesis using a b by (simp only: s1(1)) blast
  next
    case False
    with Cons.prems(1) have m: "thing \<in> set things" by simp
    have "handle2obj s1 thing = handle2obj s thing" using s1(3) False by simp
    then have u: "resolvable sim s1 thing" using Cons.prems(2) resolvable_same by blast
    from Cons.IH [OF m u r1(1,2)] show ?thesis unfolding s1(1) .
  qed
qed

lemma resolved_odd:
  "resolved 8 = \<lparr>heap = [ConstantObject_init dut 8 None 0], handle2obj = [8 \<mapsto> 0],
      deprecation_warned = {}, native_queries = [], native_writes = [], pending_writes = [],
      log = [(DEBUG, Created)]\<rparr>"
  by (simp add: resolved_def s_empty_def SimHandle_def register_def type2cls_def log_msg_def dut_simps)




subsection \<open>Reading and assigning an array in the declared order\<close>

lemma agreesD:
  assumes "agrees sim s" "handle2obj s h = Some c"
  shows "c < length (heap s)" "p_handle (heap s ! c) = h" "class_of sim h = Some (p_cls (heap s ! c))"
    "p_cls (heap s ! c) = ConstantObject \<Longrightarrow> p_value (heap s ! c) = Some (ConstantObject_read sim h (get_type sim h))"
  using assms unfolding agrees_def by blast+

lemma class_of_resolvable: "class_of sim h = Some c \<Longrightarrow> resolvable sim s h"
  unfolding class_of_def resolvable_def by (auto split: if_splits)

lemma construct_cls: "p_cls (construct sim c h p) = c" "p_cls (ConstantObject_init sim h p t) = ConstantObject"
  "p_value (ConstantObject_init sim h p t) = Some (ConstantObject_read sim h t)"
  by (simp_all add: object_defs split: cls.splits)

lemma SimHandle_new_obj:
  assumes "handle2obj s h = None" "class_of sim h = Some cl"
  shows "\<exists>obj. p_handle obj = h \<and> p_cls obj = cl
           \<and> (cl = ConstantObject \<longrightarrow> p_value obj = Some (ConstantObject_read sim h (get_type sim h)))
           \<and> SimHandle sim h p s = (Inr (length (heap s)),
                (log_msg DEBUG Created s)\<lparr>heap := heap s @ [obj], handle2obj := (handle2obj s)(h \<mapsto> length (heap s))\<rparr>)"
proof (cases "get_const sim h \<and> get_type sim h \<notin> set [MODULE sim, STRUCTURE sim, NETARRAY sim, GENARRAY sim]")
  case True
  have cl: "cl = ConstantObject" using assms(2) unfolding class_of_def by (simp only: if_P [OF True]) simp
  have "SimHandle sim h p s = (Inr (length (heap s)),
             (log_msg DEBUG Created s)\<lparr>heap := heap s @ [ConstantObject_init sim h p (get_type sim h)],
                handle2obj := (handle2obj s)(h \<mapsto> length (heap s))\<rparr>)"
    unfolding SimHandle_def Let_def register_def
    by (simp only: assms(1) if_P [OF True] option.case prod.case)
  then show ?thesis using cl construct_cls(2,3) init_identity(1) by blast
next
  case False
  have t: "type2cls sim (get_type sim h) = Some cl"
    using assms(2) unfolding class_of_def by (simp only: if_not_P [OF False])
  have nc: "cl \<noteq> ConstantObject"
    using t by (auto simp: type2cls_def split: if_splits)
  have "SimHandle sim h p s = (Inr (length (heap s)),
             (log_msg DEBUG Created s)\<lparr>heap := heap s @ [construct sim cl h p],
                handle2obj := (handle2obj s)(h \<mapsto> length (heap s))\<rparr>)"
    unfolding SimHandle_def Let_def register_def
    by (simp only: assms(1) if_not_P [OF False] t option.case prod.case)
  then show ?thesis using nc construct_cls(1) init_identity(3) by blast
qed


lemma agrees_update_obj:
  assumes "agrees sim s"
    and "r < length (heap s) \<Longrightarrow> p_handle (f (heap s ! r)) = p_handle (heap s ! r)
          \<and> p_cls (f (heap s ! r)) = p_cls (heap s ! r) \<and> p_value (f (heap s ! r)) = p_value (heap s ! r)"
  shows "agrees sim (update_obj r f s)"
proof -
  let ?H = "(heap s)[r := f (heap s ! r)]"
  have e: "p_handle (?H ! c) = p_handle (heap s ! c) \<and> p_cls (?H ! c) = p_cls (heap s ! c)
        \<and> p_value (?H ! c) = p_value (heap s ! c)" if "c < length (heap s)" for c
    using that assms(2) by (cases "c = r") simp_all
  show ?thesis
    unfolding agrees_def
  proof (intro allI impI)
    fix h c
    assume "handle2obj (update_obj r f s) h = Some c"
    then have hc: "handle2obj s h = Some c" by simp
    note d = agreesD [OF assms(1) hc]
    from e [OF d(1)] d
    show "c < length (heap (update_obj r f s)) \<and> p_handle (heap (update_obj r f s) ! c) = h
        \<and> class_of sim h = Some (p_cls (heap (update_obj r f s) ! c))
        \<and> (p_cls (heap (update_obj r f s) ! c) = ConstantObject \<longrightarrow>
             p_value (heap (update_obj r f s) ! c) = Some (ConstantObject_read sim h (get_type sim h)))"
      by simp
  qed
qed

lemma agrees_same_heap:
  "heap s' = heap s \<Longrightarrow> handle2obj s' = handle2obj s \<Longrightarrow> agrees sim s \<Longrightarrow> agrees sim s'"
  by (simp add: agrees_def)

lemma agrees_new:
  assumes "agrees sim s" "handle2obj s h = None" "p_handle obj = h" "class_of sim h = Some (p_cls obj)"
    "p_cls obj = ConstantObject \<longrightarrow> p_value obj = Some (ConstantObject_read sim h (get_type sim h))"
  shows "agrees sim ((log_msg DEBUG Created s)\<lparr>heap := heap s @ [obj], handle2obj := (handle2obj s)(h \<mapsto> length (heap s))\<rparr>)"
  unfolding agrees_def
proof (intro allI impI)
  fix k c
  let ?s = "(log_msg DEBUG Created s)\<lparr>heap := heap s @ [obj], handle2obj := (handle2obj s)(h \<mapsto> length (heap s))\<rparr>"
  assume a: "handle2obj ?s k = Some c"
  show "c < length (heap ?s) \<and> p_handle (heap ?s ! c) = k \<and> class_of sim k = Some (p_cls (heap ?s ! c))
        \<and> (p_cls (heap ?s ! c) = ConstantObject \<longrightarrow>
             p_value (heap ?s ! c) = Some (ConstantObject_read sim k (get_type sim k)))"
  proof (cases "k = h")
    case True
    with a have "c = length (heap s)" by simp
    with True assms(3-5) show ?thesis by simp
  next
    case False
    with a have hc: "handle2obj s k = Some c" by simp
    note d = agreesD [OF assms(1) hc]
    from d show ?thesis by (simp add: nth_append)
  qed
qed

text \<open>Resolving a handle that has a class, in a state that agrees with the simulator.\<close>

lemma SimHandle_agrees:
  assumes "agrees sim s" "class_of sim h = Some cl"
  obtains c s1 where "SimHandle sim h p s = (Inr c, s1)" "agrees sim s1" "handle2obj s1 h = Some c"
    "grows s s1" "pending_writes s1 = pending_writes s" "native_writes s1 = native_writes s"
proof (cases "handle2obj s h")
  case (Some c)
  show ?thesis
    by (rule that [of c s]) (simp_all add: SimHandle_cached [OF Some] assms(1) Some)
next
  case None
  from SimHandle_new_obj [OF None assms(2), of p] obtain obj where
    o: "p_handle obj = h" "p_cls obj = cl"
       "cl = ConstantObject \<longrightarrow> p_value obj = Some (ConstantObject_read sim h (get_type sim h))"
    and sh: "SimHandle sim h p s = (Inr (length (heap s)),
                (log_msg DEBUG Created s)\<lparr>heap := heap s @ [obj], handle2obj := (handle2obj s)(h \<mapsto> length (heap s))\<rparr>)"
    by blast
  let ?s1 = "(log_msg DEBUG Created s)\<lparr>heap := heap s @ [obj], handle2obj := (handle2obj s)(h \<mapsto> length (heap s))\<rparr>"
  have g: "grows s ?s1" using SimHandle_grows [of s sim h p] by (simp add: sh)
  have ag: "agrees sim ?s1"
    by (rule agrees_new [OF assms(1) None o(1)]) (simp_all add: o assms(2))
  show ?thesis
    by (rule that [of "length (heap s)" ?s1]) (simp_all add: sh ag g)
qed

lemma scalar_get:
  assumes "agrees sim s" "handle2obj s h = Some c" "class_of sim h = Some cl" "is_scalar cl"
  shows "get_value sim (Suc d) c s = (Inr (element_value sim h), s)"
proof -
  note d = agreesD [OF assms(1,2)]
  have cl: "p_cls (heap s ! c) = cl" using d(3) assms(3) by simp
  show ?thesis
  proof (cases "cl = ConstantObject")
    case True
    with d(4) cl have "p_value (heap s ! c) = Some (ConstantObject_read sim h (get_type sim h))" by simp
    with True cl assms(3) show ?thesis by (simp add: element_value_def)
  next
    case False
    with assms(3,4) cl d(2) show ?thesis
      by (auto simp: element_value_def is_scalar_def Let_def)
  qed
qed

lemma modifiable_set:
  assumes "agrees sim s" "handle2obj s h = Some c" "class_of sim h = Some cl" "is_modifiable cl"
  shows "set_value sim (Suc d) c v s = (Inr (), save_write c v s)"
proof -
  note d = agreesD [OF assms(1,2)]
  have cl: "p_cls (heap s ! c) = cl" using d(3) assms(3) by simp
  with assms(4) show ?thesis
    by (auto simp: is_modifiable_def)
qed


lemma arr_inv_same_heap:
  "heap s' = heap s \<Longrightarrow> handle2obj s' = handle2obj s \<Longrightarrow> arr_inv sim a hr rg s \<Longrightarrow> arr_inv sim a hr rg s'"
  unfolding arr_inv_def using agrees_same_heap [of s' s sim] by simp

text \<open>Taking the element at an index whose handle has a class.\<close>

lemma getitem_arr:
  assumes inv: "arr_inv sim a hr rg s" and h': "get_handle_by_index sim hr i = h'" "h' \<noteq> 0"
    and cl: "class_of sim h' = Some cl"
  obtains c s1 where "NonHierarchyIndexableObject_getitem sim a i s = (Inr c, s1)" "arr_inv sim a hr rg s1"
    "handle2obj s1 h' = Some c" "grows s s1" "pending_writes s1 = pending_writes s"
    "native_writes s1 = native_writes s"
proof -
  from inv have ag: "agrees sim s" and a: "a < length (heap s)" and hr: "p_handle (heap s ! a) = hr"
    and rg: "p_range (heap s ! a) = Some rg"
    and L: "\<And>j c. p_sub_handles (heap s ! a) (KIdx j) = Some c \<Longrightarrow>
           handle2obj s (get_handle_by_index sim hr j) = Some c"
    unfolding arr_inv_def by blast+
  show thesis
  proof (cases "p_sub_handles (heap s ! a) (KIdx i)")
    case (Some c)
    have g: "NonHierarchyIndexableObject_getitem sim a i s = (Inr c, s)"
      by (simp add: NonHierarchyIndexableObject_getitem_def rg Some)
    show ?thesis
      by (rule that [of c s]) (use g inv L [OF Some] h' in simp_all)
  next
    case None
    let ?q = "native_query (ByIndex hr i) s"
    let ?p = "Some (p_path (heap s ! a) @ ''['' @ str_int i @ '']'')"
    have agq: "agrees sim ?q" by (rule agrees_same_heap [OF _ _ ag]) simp_all
    from SimHandle_agrees [OF agq cl, of ?p] obtain c s2 where
      sh: "SimHandle sim h' ?p ?q = (Inr c, s2)" and ag2: "agrees sim s2" and c: "handle2obj s2 h' = Some c"
      and g2: "grows ?q s2" and pw: "pending_writes s2 = pending_writes ?q" "native_writes s2 = native_writes ?q"
      by blast
    let ?s1 = "set_sub_handle a (KIdx i) c s2"
    have gq: "grows s s2" using grows_trans [OF grows_native_query g2] .
    have a2: "a < length (heap s2)" using grows_length [OF gq a] .
    have id2: "same_identity (heap s ! a) (heap s2 ! a)" using grows_identity [OF gq a] .
    have g: "NonHierarchyIndexableObject_getitem sim a i s = (Inr c, ?s1)"
      using sh h' by (simp add: NonHierarchyIndexableObject_getitem_def rg None hr Let_def del: set_sub_handle_fields)
    have ag1: "agrees sim ?s1"
      unfolding set_sub_handle_def by (rule agrees_update_obj [OF ag2]) simp
    have sub2: "handle2obj s2 (get_handle_by_index sim hr j) = Some c'"
      if "p_sub_handles (heap s2 ! a) (KIdx j) = Some c'" "j \<noteq> i" for j c'
    proof -
      have "p_sub_handles (heap s2 ! a) = p_sub_handles (heap s ! a)"
      proof (cases rule: SimHandle_cases [of ?q h' sim ?p])
        case (cached c0)
        with sh show ?thesis by simp
      next
        case fails
        with sh show ?thesis by simp
      next
        case (new obj)
        with sh a show ?thesis by (auto simp: nth_append)
      qed
      with that(1) have "p_sub_handles (heap s ! a) (KIdx j) = Some c'" by simp
      from L [OF this] gq show ?thesis by (simp add: grows_def)
    qed
    have inv1: "arr_inv sim a hr rg ?s1"
      unfolding arr_inv_def
    proof (intro conjI allI impI)
      show "agrees sim ?s1" by (rule ag1)
      show "a < length (heap ?s1)" using a2 by simp
      show "p_handle (heap ?s1 ! a) = hr" using a2 id2 hr by (simp add: same_identity_def)
      show "p_range (heap ?s1 ! a) = Some rg" using a2 id2 rg by (simp add: same_identity_def)
      fix j c'
      assume "p_sub_handles (heap ?s1 ! a) (KIdx j) = Some c'"
      then show "handle2obj ?s1 (get_handle_by_index sim hr j) = Some c'"
        using a2 sub2 [of j c'] c h'(1) by (cases "j = i") simp_all
    qed
    show ?thesis
    proof (rule that [of c ?s1])
      show "NonHierarchyIndexableObject_getitem sim a i s = (Inr c, ?s1)" by (rule g)
      show "arr_inv sim a hr rg ?s1" by (rule inv1)
      show "handle2obj ?s1 h' = Some c" using c by simp
      show "grows s ?s1" using grows_trans [OF gq grows_set_sub_handle] .
      show "pending_writes ?s1 = pending_writes s" using pw by simp
      show "native_writes ?s1 = native_writes s" using pw by simp
    qed
  qed
qed


lemma item_value_scalar:
  assumes "arr_inv sim a hr rg s" "get_handle_by_index sim hr i \<noteq> 0"
    "class_of sim (get_handle_by_index sim hr i) = Some cl" "is_scalar cl"
  shows "fst (item_value sim (Suc d) a i s) = Inr (element_value sim (get_handle_by_index sim hr i))"
proof -
  from getitem_arr [OF assms(1) refl assms(2,3)] obtain c s1 where
    g: "NonHierarchyIndexableObject_getitem sim a i s = (Inr c, s1)" and inv1: "arr_inv sim a hr rg s1"
    and c: "handle2obj s1 (get_handle_by_index sim hr i) = Some c"
    by blast
  have ag1: "agrees sim s1" using inv1 by (simp add: arr_inv_def)
  have v: "get_value sim (Suc d) c s1 = (Inr (element_value sim (get_handle_by_index sim hr i)), s1)"
    by (rule scalar_get [OF ag1 c assms(3,4)])
  show ?thesis by (simp add: item_value_def g v del: get_value.simps)
qed

lemma get_values_scalars:
  assumes "arr_inv sim a hr rg s"
    and "\<forall>i \<in> set is. get_handle_by_index sim hr i \<noteq> 0
           \<and> (\<exists>cl. class_of sim (get_handle_by_index sim hr i) = Some cl \<and> is_scalar cl)"
  shows "fst (get_values sim (Suc d) a is s) = Inr (map (\<lambda>i. element_value sim (get_handle_by_index sim hr i)) is)
       \<and> pending_writes (snd (get_values sim (Suc d) a is s)) = pending_writes s
       \<and> native_writes (snd (get_values sim (Suc d) a is s)) = native_writes s"
  using assms
proof (induction "is" arbitrary: s)
  case Nil
  show ?case by simp
next
  case (Cons i "is")
  let ?h = "get_handle_by_index sim hr i"
  from Cons.prems(2) obtain cl where h: "?h \<noteq> 0" and cl: "class_of sim ?h = Some cl" "is_scalar cl"
    by auto
  from getitem_arr [OF Cons.prems(1) refl h cl(1)] obtain c s1 where
    g: "NonHierarchyIndexableObject_getitem sim a i s = (Inr c, s1)" and inv1: "arr_inv sim a hr rg s1"
    and c: "handle2obj s1 ?h = Some c" and w: "pending_writes s1 = pending_writes s" "native_writes s1 = native_writes s"
    by blast
  have ag1: "agrees sim s1" using inv1 by (simp add: arr_inv_def)
  have v: "get_value sim (Suc d) c s1 = (Inr (element_value sim ?h), s1)"
    by (rule scalar_get [OF ag1 c cl])
  have rest: "\<forall>i \<in> set is. get_handle_by_index sim hr i \<noteq> 0
           \<and> (\<exists>cl. class_of sim (get_handle_by_index sim hr i) = Some cl \<and> is_scalar cl)"
    using Cons.prems(2) by simp
  note IH = Cons.IH [OF inv1 rest]
  obtain res s3 where r: "get_values sim (Suc d) a is s1 = (res, s3)" by (cases "get_values sim (Suc d) a is s1")
  from IH r have res: "res = Inr (map (\<lambda>i. element_value sim (get_handle_by_index sim hr i)) is)"
    and w3: "pending_writes s3 = pending_writes s1" "native_writes s3 = native_writes s1"
    by simp_all
  show ?case
    by (simp add: g v r res w3 w del: get_value.simps)
qed

lemma set_values_modifiable:
  assumes "arr_inv sim a hr rg s"
    and "\<forall>i \<in> set is. get_handle_by_index sim hr i \<noteq> 0
           \<and> (\<exists>cl. class_of sim (get_handle_by_index sim hr i) = Some cl \<and> is_modifiable cl)"
    and "length is \<le> length vs"
  shows "\<exists>cs s'. set_values sim (Suc d) a is vs s = (Inr (), s')
           \<and> map (\<lambda>i. handle2obj s' (get_handle_by_index sim hr i)) is = map Some cs
           \<and> pending_writes s' = pending_writes s @ zip cs vs
           \<and> native_writes s' = native_writes s \<and> grows s s'"
  using assms
proof (induction "is" arbitrary: s vs)
  case Nil
  show ?case by simp
next
  case (Cons i "is")
  from Cons.prems(3) obtain v vs' where vs: "vs = v # vs'" "length is \<le> length vs'"
    by (cases vs) simp_all
  let ?h = "get_handle_by_index sim hr i"
  from Cons.prems(2) obtain cl where h: "?h \<noteq> 0" and cl: "class_of sim ?h = Some cl" "is_modifiable cl"
    by auto
  from getitem_arr [OF Cons.prems(1) refl h cl(1)] obtain c s1 where
    g: "NonHierarchyIndexableObject_getitem sim a i s = (Inr c, s1)" and inv1: "arr_inv sim a hr rg s1"
    and c: "handle2obj s1 ?h = Some c" and g1: "grows s s1"
    and w: "pending_writes s1 = pending_writes s" "native_writes s1 = native_writes s"
    by blast
  have ag1: "agrees sim s1" using inv1 by (simp add: arr_inv_def)
  let ?s2 = "save_write c v s1"
  have v: "set_value sim (Suc d) c v s1 = (Inr (), ?s2)"
    by (rule modifiable_set [OF ag1 c cl])
  have inv2: "arr_inv sim a hr rg ?s2" by (rule arr_inv_same_heap [OF _ _ inv1]) simp_all
  have rest: "\<forall>i \<in> set is. get_handle_by_index sim hr i \<noteq> 0
           \<and> (\<exists>cl. class_of sim (get_handle_by_index sim hr i) = Some cl \<and> is_modifiable cl)"
    using Cons.prems(2) by simp
  from Cons.IH [OF inv2 rest vs(2)] obtain cs s' where
    r: "set_values sim (Suc d) a is vs' ?s2 = (Inr (), s')"
    and m: "map (\<lambda>i. handle2obj s' (get_handle_by_index sim hr i)) is = map Some cs"
    and p: "pending_writes s' = pending_writes ?s2 @ zip cs vs'"
    and n: "native_writes s' = native_writes ?s2" and gr: "grows ?s2 s'"
    by blast
  have c': "handle2obj s' ?h = Some c" using gr c by (simp add: grows_def)
  have g': "grows s s'" using grows_trans [OF grows_trans [OF g1 grows_save_write] gr] .
  have "set_values sim (Suc d) a (i # is) vs s = (Inr (), s')
           \<and> map (\<lambda>i. handle2obj s' (get_handle_by_index sim hr i)) (i # is) = map Some (c # cs)
           \<and> pending_writes s' = pending_writes s @ zip (c # cs) vs
           \<and> native_writes s' = native_writes s \<and> grows s s'"
    by (simp add: vs(1) g v r m c' p n w g' del: set_value.simps)
  then show ?case by blast
qed


lemma range_down_eq: "range_down left right = rev [right..left]"
proof (induction left right rule: range_down.induct)
  case (1 left right)
  show ?case
  proof (cases "left \<ge> right")
    case True
    have "[right..left] = [right..left - 1] @ [left]" using True by (rule upto_rec2)
    with 1 True show ?thesis by (subst range_down.simps) simp
  next
    case False
    then show ?thesis by (subst range_down.simps) simp
  qed
qed

lemma range_up_eq: "range_up left right = [left..right]"
proof (induction left right rule: range_up.induct)
  case (1 left right)
  show ?case
  proof (cases "left \<le> right")
    case True
    have "[left..right] = left # [left + 1..right]" using True by (rule upto_rec1)
    with 1 True show ?thesis by (subst range_up.simps) simp
  next
    case False
    then show ?thesis by (subst range_up.simps) simp
  qed
qed

lemma range_iter_eq: "range_iter left right = (if left > right then rev [right..left] else [left..right])"
  by (simp only: range_iter_def range_down_eq range_up_eq)

lemma arr_inv_len:
  assumes "arr_inv sim a hr rg s"
  shows "arr_inv sim a hr rg (snd (SimHandleBase_len sim a s))"
proof (cases "p_len (heap s ! a)")
  case (Some n)
  with assms show ?thesis by (simp add: SimHandleBase_len_def)
next
  case None
  let ?f = "\<lambda>self. self\<lparr>p_len := Some (get_num_elems sim (p_handle self))\<rparr>"
  have s1: "snd (SimHandleBase_len sim a s) = update_obj a ?f s"
    by (simp add: SimHandleBase_len_def None)
  from assms have ag: "agrees sim s" and a: "a < length (heap s)" by (simp_all add: arr_inv_def)
  have ag1: "agrees sim (update_obj a ?f s)" by (rule agrees_update_obj [OF ag]) simp
  show ?thesis
    unfolding s1 arr_inv_def using assms a ag1 by (simp add: arr_inv_def)
qed

lemma range_iter_7_0: "range_iter 7 0 = [7, 6, 5, 4, 3, 2, 1, 0]"
  by (simp add: range_iter_def)

lemma sparse_mem:
  "s_sparse = \<lparr>heap = [construct sparse NonHierarchyIndexableObject 7 None], handle2obj = [7 \<mapsto> 0],
      deprecation_warned = {}, native_queries = [], native_writes = [], pending_writes = [],
      log = [(DEBUG, Created)]\<rparr>"
  by (simp add: s_sparse_def sparse_def s_empty_def SimHandle_def register_def type2cls_def log_msg_def dut_simps)

lemma sparse_mem_obj:
  "p_cls (heap s_sparse ! 0) = NonHierarchyIndexableObject"
  "p_handle (heap s_sparse ! 0) = 7"
  "p_range (heap s_sparse ! 0) = Some (7, 0)"
  "p_fullname (heap s_sparse ! 0) = ''mem(GPI)''"
  "p_path (heap s_sparse ! 0) = ''mem''"
  "p_sub_handles (heap s_sparse ! 0) = Map.empty"
  by (simp_all add: sparse_mem object_defs) (simp_all add: sparse_def dut_simps)



text \<open>
  The example of the claim: \<^verbatim>\<open>mem\<close> has the range (7, 0) and holds 10 at index 7 up to 17 at
  index 0. Reading gives 10, ..., 17, and assigning the list 0, ..., 7 writes 0 to the
  object made for index 7 (handle 107) and 7 to the object made for index 0 (handle 100).
\<close>

lemma mem_agrees: "agrees dut (resolved 7)"
  by (simp add: agrees_def resolved_mem class_of_def type2cls_def object_defs dut_simps)

lemma mem_elements:
  "map (get_handle_by_index dut 7) [7, 6, 5, 4, 3, 2, 1, 0] = [107, 106, 105, 104, 103, 102, 101, 100]"
  "map (class_of dut) [107, 106, 105, 104, 103, 102, 101, 100] = replicate 8 (Some IntegerObject)"
  "map (element_value dut) [107, 106, 105, 104, 103, 102, 101, 100] = map VInt [10, 11, 12, 13, 14, 15, 16, 17]"
  by (simp_all add: element_value_def class_of_def type2cls_def eval_nat_numeral dut_simps)

lemma mem_set_all:
  "map (handle2obj (snd (set_value dut (Suc (Suc 0)) 0 (VList (map VInt [0, 1, 2, 3, 4, 5, 6, 7])) (resolved 7))))
       [107, 106, 105, 104, 103, 102, 101, 100] = map Some [1, 2, 3, 4, 5, 6, 7, 8]"
  by (simp add: resolved_mem_obj range_iter_7_0 NonHierarchyIndexableObject_getitem_def
        resolved_mem SimHandle_def register_def type2cls_def log_msg_def native_query_def set_sub_handle_def
        update_obj_def object_defs dut_simps Let_def SimHandleBase_len_def save_write_def)


end
